theory Spec2Isabelle
  imports
    Complex_Main
    "HOL-Library.Log_Nat"
    "HOL-Library.Multiset"
    "HOL-Library.Char_ord"
    "HOL-Library.List_Lexorder"
    "HOL-Library.Product_Lexorder"
begin

section \<open>Strings\<close>

text \<open>
  A JavaScript string is modelled as a \<^typ>\<open>string\<close> whose characters are the code points
  U+0000 to U+00FF. Within that range the white space of the regular expression class
  \<^verbatim>\<open>\s\<close> and of \<^verbatim>\<open>String.prototype.trim\<close> is TAB, LF, VT, FF, CR, SPACE and NBSP, and
  \<^verbatim>\<open>toLowerCase\<close> moves the letters A to Z and the accented capitals U+00C0 to U+00DE
  (except the multiplication sign U+00D7) up by 32.
\<close>

definition is_space :: "char \<Rightarrow> bool" where
  "is_space c = (c \<in> set [CHR 0x09, CHR 0x0A, CHR 0x0B, CHR 0x0C, CHR 0x0D, CHR 0x20, CHR 0xA0])"

definition is_upper :: "char \<Rightarrow> bool" where
  "is_upper c = (let n = (of_char c :: int)
     in (65 \<le> n \<and> n \<le> 90) \<or> (192 \<le> n \<and> n \<le> 214) \<or> (216 \<le> n \<and> n \<le> 222))"

definition lower_char :: "char \<Rightarrow> char" where
  "lower_char c = (if is_upper c then char_of ((of_char c :: int) + 32) else c)"

definition toLowerCase :: "string \<Rightarrow> string" where
  "toLowerCase s = map lower_char s"

definition trim :: "string \<Rightarrow> string" where
  "trim s = rev (dropWhile is_space (rev (dropWhile is_space s)))"

definition startsWith :: "string \<Rightarrow> char \<Rightarrow> bool" where
  "startsWith s c = (case s of [] \<Rightarrow> False | d # _ \<Rightarrow> d = c)"

text \<open>
  \<^verbatim>\<open>s.split(/\s+/)\<close>: the pieces of \<open>s\<close> between maximal runs of white space. A run at
  the start or at the end of \<open>s\<close> leaves an empty piece there, as in JavaScript. The first
  argument is the piece being read, reversed.
\<close>

function split_ws_from :: "string \<Rightarrow> string \<Rightarrow> string list" where
  "split_ws_from cur [] = [rev cur]"
| "split_ws_from cur (c # cs) =
     (if is_space c then rev cur # split_ws_from [] (dropWhile is_space cs)
      else split_ws_from (c # cur) cs)"
  by pat_completeness auto
termination
  by (relation "measure (\<lambda>(cur, s). length s)")
     (auto simp: less_Suc_eq_le length_dropWhile_le)

definition split_ws :: "string \<Rightarrow> string list" where
  "split_ws s = split_ws_from [] s"

text \<open>\<^verbatim>\<open>Array.prototype.join\<close>.\<close>

fun join :: "string \<Rightarrow> string list \<Rightarrow> string" where
  "join sep [] = []"
| "join sep [x] = x"
| "join sep (x # y # ys) = x @ sep @ join sep (y # ys)"

text \<open>Digits of a non-negative integer in a base up to 36, as
  \<^verbatim>\<open>Number.prototype.toString(radix)\<close> writes an integer.\<close>

definition digit_char :: "int \<Rightarrow> char" where
  "digit_char d = (if d < 10 then char_of (48 + d) else char_of (87 + d))"

function digits_in :: "int \<Rightarrow> int \<Rightarrow> string" where
  "digits_in b n =
     (if b < 2 \<or> n < b then [digit_char n] else digits_in b (n div b) @ [digit_char (n mod b)])"
  by pat_completeness auto
termination
  by (relation "measure (\<lambda>(b, n). nat n)") (auto simp: not_less intro!: int_div_less_self)

definition int_toString :: "int \<Rightarrow> int \<Rightarrow> string" where
  "int_toString b i = (if i < 0 then CHR ''-'' # digits_in b (- i) else digits_in b i)"

section \<open>Numbers\<close>

text \<open>
  A JavaScript Number is a binary64 floating-point value or NaN. The model is
  \<^typ>\<open>rat option\<close>: \<open>None\<close> is NaN and \<open>Some r\<close> is the finite value \<open>r\<close>. Every arithmetic
  result is rounded to the nearest value with a 53-bit significand, ties to even
  (\<open>fl\<close>). The exponent range is not bounded and \<open>-0\<close> is equal to \<open>0\<close>: the program never
  divides by zero and never leaves the range of the normal numbers, and it only compares
  its numbers.
\<close>

type_synonym number = "rat option"

text \<open>\<open>binade x\<close> is the integer \<open>k\<close> with \<open>2^k \<le> x < 2^(k+1)\<close>, for positive \<open>x\<close>.\<close>

definition binade :: "rat \<Rightarrow> int" where
  "binade x = (let (a, b) = quotient_of x; d = bitlen a - bitlen b
               in if 2 powi d \<le> x then d else d - 1)"

definition round_half_even :: "rat \<Rightarrow> int" where
  "round_half_even y = (let n = \<lfloor>y\<rfloor>; r = y - of_int n
     in if r < 1/2 then n else if 1/2 < r then n + 1 else if even n then n else n + 1)"

definition fl :: "rat \<Rightarrow> rat" where
  "fl x = (if x = 0 then 0 else
     let e = binade \<bar>x\<bar> - 52
     in sgn x * of_int (round_half_even (\<bar>x\<bar> / 2 powi e)) * 2 powi e)"

text \<open>An integer literal, an array length or a time value. These are integers below
  \<open>2^53\<close> in magnitude (a time value is at most \<open>8.64 * 10^15\<close>), which binary64 holds
  exactly.\<close>

definition num :: "int \<Rightarrow> number" where
  "num i = Some (of_int i)"

definition num_sub :: "number \<Rightarrow> number \<Rightarrow> number" where
  "num_sub a b = (case (a, b) of (Some x, Some y) \<Rightarrow> Some (fl (x - y)) | _ \<Rightarrow> None)"

definition num_mul :: "number \<Rightarrow> number \<Rightarrow> number" where
  "num_mul a b = (case (a, b) of (Some x, Some y) \<Rightarrow> Some (fl (x * y)) | _ \<Rightarrow> None)"

text \<open>Division; the program's divisors are never zero, and a zero divisor is given NaN here.\<close>

definition num_div :: "number \<Rightarrow> number \<Rightarrow> number" where
  "num_div a b = (case (a, b) of
      (Some x, Some y) \<Rightarrow> if y = 0 then None else Some (fl (x / y))
    | _ \<Rightarrow> None)"

text \<open>Comparisons: every comparison with NaN is false.\<close>

definition num_lt :: "number \<Rightarrow> number \<Rightarrow> bool" where
  "num_lt a b = (case (a, b) of (Some x, Some y) \<Rightarrow> x < y | _ \<Rightarrow> False)"

definition num_le :: "number \<Rightarrow> number \<Rightarrow> bool" where
  "num_le a b = (case (a, b) of (Some x, Some y) \<Rightarrow> x \<le> y | _ \<Rightarrow> False)"


definition Math_ceil :: "number \<Rightarrow> number" where
  "Math_ceil a = map_option (\<lambda>x. of_int \<lceil>x\<rceil>) a"


text \<open>\<^verbatim>\<open>Math.round\<close>: the nearest integer, a tie going up.\<close>

definition Math_round :: "number \<Rightarrow> number" where
  "Math_round a = map_option (\<lambda>x. of_int \<lfloor>x + 1/2\<rfloor>) a"


section \<open>The host: clock, dates, random numbers\<close>

text \<open>
  The built-in \<^verbatim>\<open>Date\<close> is a parameter of the model. \<open>dateParse\<close> is the time value
  (milliseconds since the epoch) of \<^verbatim>\<open>new Date(s)\<close>, \<open>None\<close> for an invalid date;
  \<open>toISOString\<close> and \<open>toLocaleDateString\<close> render a time value
  (the latter with the options \<^verbatim>\<open>year: numeric, month: short, day: numeric\<close> in \<^verbatim>\<open>en-US\<close>).
\<close>

record platform =
  dateParse :: "string \<Rightarrow> int option"
  toISOString :: "int \<Rightarrow> string"
  toLocaleDateString :: "int \<Rightarrow> string"

text \<open>
  What a handler reads from its surroundings while it runs: \<open>clock\<close> is the instant returned
  by \<^verbatim>\<open>new Date()\<close> and \<^verbatim>\<open>Date.now()\<close> (one reading for the whole run of a handler),
  \<open>randomSuffix\<close> is \<^verbatim>\<open>Math.random().toString(36).substr(2)\<close>, and \<open>storageWritable\<close> tells
  whether \<^verbatim>\<open>localStorage.setItem\<close> succeeds.
\<close>

record env =
  clock :: int
  randomSuffix :: string
  storageWritable :: bool

definition getTime :: "platform \<Rightarrow> string \<Rightarrow> number" where
  "getTime P s = (case dateParse P s of None \<Rightarrow> None | Some t \<Rightarrow> num t)"

section \<open>TaskModel\<close>

datatype priority = Overdue | High | Medium | Low

text \<open>A task object. The fields \<^verbatim>\<open>id\<close> and \<^verbatim>\<open>text\<close> are \<open>taskId\<close> and \<open>taskText\<close>
  here. An absent due date is the empty string, as in the source.\<close>

record task =
  taskId :: string
  taskText :: string
  completed :: bool
  dueDate :: string
  tags :: "string list"
  createdAt :: string
  priority :: priority

text \<open>The object read from a form (\<^verbatim>\<open>getFormData\<close>, \<^verbatim>\<open>getEditFormData\<close>): the values
  of three input elements, each a string.\<close>

record form_data =
  formText :: string
  formDueDate :: string
  formTags :: string

record validation =
  isValid :: bool
  errors :: "string list"


record task_stats =
  total :: nat
  completedCount :: nat
  pending :: nat
  overdueCount :: nat
  completionRate :: number

text \<open>Values that a caller may hand to \<^verbatim>\<open>parseTags\<close>.\<close>

datatype js_value = JSUndefined | JSNull | JSNumber rat | JSString string

subsection \<open>parseTags\<close>

text \<open>\<^verbatim>\<open>arr.indexOf(x)\<close>: the first index holding \<open>x\<close>; \<open>None\<close> stands for \<open>-1\<close>.\<close>

fun indexOf :: "'a list \<Rightarrow> 'a \<Rightarrow> nat option" where
  "indexOf [] x = None"
| "indexOf (y # ys) x = (if y = x then Some 0 else map_option Suc (indexOf ys x))"

text \<open>\<^verbatim>\<open>arr.filter((tag, index, arr) => arr.indexOf(tag) === index)\<close>.\<close>

definition filter_first_index :: "'a list \<Rightarrow> 'a list" where
  "filter_first_index arr =
     map snd (filter (\<lambda>(index, tag). indexOf arr tag = Some index) (enumerate 0 arr))"

definition parseTags :: "js_value \<Rightarrow> string list" where
  "parseTags tagsString =
     (case tagsString of
        JSString s \<Rightarrow>
          if s = [] then []
          else filter_first_index
                 (map toLowerCase (filter (\<lambda>tag. startsWith tag CHR ''#'') (split_ws s)))
      | _ \<Rightarrow> [])"

text \<open>Removing duplicates so that the first occurrence of each element stays where it was:
  the specification's wording of the last step of \<^verbatim>\<open>parseTags\<close>, and the iteration order
  of a \<^verbatim>\<open>Set\<close> built from an array.\<close>

fun remove_duplicates_from :: "'a list \<Rightarrow> 'a list \<Rightarrow> 'a list" where
  "remove_duplicates_from seen [] = []"
| "remove_duplicates_from seen (x # xs) =
     (if x \<in> set seen then remove_duplicates_from seen xs
      else x # remove_duplicates_from (x # seen) xs)"

definition remove_duplicates :: "'a list \<Rightarrow> 'a list" where
  "remove_duplicates xs = remove_duplicates_from [] xs"

subsection \<open>calculatePriority, getDueDateStatus, formatDate\<close>

text \<open>
  Both \<^verbatim>\<open>calculatePriority\<close> and \<^verbatim>\<open>getDueDateStatus\<close> start with the same four lines:
  \<^verbatim>\<open>today = new Date(); due = new Date(dueDate); diffTime = due.getTime() - today.getTime();
  diffDays = Math.ceil(diffTime / (1000 * 60 * 60 * 24))\<close>. \<^verbatim>\<open>new Date()\<close> reads the clock.
\<close>

definition diffDays :: "platform \<Rightarrow> env \<Rightarrow> string \<Rightarrow> number" where
  "diffDays P e due_date =
     (let today = num (clock e);
          due = getTime P due_date;
          diffTime = num_sub due today
      in Math_ceil (num_div diffTime (num (1000 * 60 * 60 * 24))))"

definition calculatePriority :: "platform \<Rightarrow> env \<Rightarrow> string \<Rightarrow> priority" where
  "calculatePriority P e due_date =
     (if due_date = [] then Low
      else let d = diffDays P e due_date
           in if num_lt d (num 0) then Overdue
              else if num_le d (num 1) then High
              else if num_le d (num 3) then Medium
              else Low)"


definition formatDate :: "platform \<Rightarrow> string \<Rightarrow> string" where
  "formatDate P dateString =
     (if dateString = [] then []
      else case dateParse P dateString of
             None \<Rightarrow> ''Invalid Date''
           | Some t \<Rightarrow> toLocaleDateString P t)"

subsection \<open>createTask\<close>

definition generateId :: "env \<Rightarrow> string" where
  "generateId e = int_toString 36 (clock e) @ randomSuffix e"

definition createTask :: "platform \<Rightarrow> env \<Rightarrow> string \<Rightarrow> string \<Rightarrow> string \<Rightarrow> task" where
  "createTask P e txt due_date tagsString =
     \<lparr>taskId = generateId e,
      taskText = trim txt,
      completed = False,
      dueDate = due_date,
      tags = parseTags (JSString tagsString),
      createdAt = toISOString P (clock e),
      priority = calculatePriority P e due_date\<rparr>"

subsection \<open>validateTask\<close>

text \<open>The four \<^verbatim>\<open>if\<close> statements run one after the other, each appending to \<open>errors\<close>.
  \<^verbatim>\<open>taskData.tags\<close> is the string typed into the tags field, and \<^verbatim>\<open>.length\<close> is the
  number of its characters.\<close>

definition validateTask :: "platform \<Rightarrow> form_data \<Rightarrow> validation" where
  "validateTask P taskData =
     (let errors1 =
            (if formText taskData = [] \<or> length (trim (formText taskData)) = 0
             then [''Task text is required''] else []);
          errors2 =
            (if formText taskData \<noteq> [] \<and> 500 < length (trim (formText taskData))
             then errors1 @ [''Task text must be less than 500 characters''] else errors1);
          errors3 =
            (if formDueDate taskData \<noteq> [] \<and> getTime P (formDueDate taskData) = None
             then errors2 @ [''Invalid due date format''] else errors2);
          errors4 =
            (if formTags taskData \<noteq> [] \<and> 10 < length (formTags taskData)
             then errors3 @ [''Maximum 10 tags allowed''] else errors3)
      in \<lparr>isValid = (length errors4 = 0), errors = errors4\<rparr>)"

subsection \<open>sortTasks\<close>

text \<open>
  \<^verbatim>\<open>Array.prototype.sort(compare)\<close> sorts in place and is stable; \<open>a\<close> goes after \<open>b\<close>
  only when \<open>compare(a, b) > 0\<close>, and a NaN result counts as \<open>0\<close>. It is modelled by stable
  insertion from the right end. (For a comparator that is not a consistent ordering
  ECMAScript leaves the order to the implementation; the comparators below are consistent
  on tasks whose dates parse.)
\<close>

fun insert_sorted :: "('a \<Rightarrow> 'a \<Rightarrow> number) \<Rightarrow> 'a \<Rightarrow> 'a list \<Rightarrow> 'a list" where
  "insert_sorted cmp x [] = [x]"
| "insert_sorted cmp x (y # ys) =
     (if num_lt (num 0) (cmp x y) then y # insert_sorted cmp x ys else x # y # ys)"

definition array_sort :: "('a \<Rightarrow> 'a \<Rightarrow> number) \<Rightarrow> 'a list \<Rightarrow> 'a list" where
  "array_sort cmp xs = foldr (insert_sorted cmp) xs []"

definition priorityOrder :: "priority \<Rightarrow> number" where
  "priorityOrder p = (case p of Overdue \<Rightarrow> num 0 | High \<Rightarrow> num 1 | Medium \<Rightarrow> num 2 | Low \<Rightarrow> num 3)"

definition compareDueDate :: "platform \<Rightarrow> task \<Rightarrow> task \<Rightarrow> number" where
  "compareDueDate P a b =
     (if dueDate a = [] \<and> dueDate b = [] then num 0
      else if dueDate a = [] then num 1
      else if dueDate b = [] then num (- 1)
      else num_sub (getTime P (dueDate a)) (getTime P (dueDate b)))"

definition comparePriority :: "task \<Rightarrow> task \<Rightarrow> number" where
  "comparePriority a b = num_sub (priorityOrder (priority a)) (priorityOrder (priority b))"

definition compareCreated :: "platform \<Rightarrow> task \<Rightarrow> task \<Rightarrow> number" where
  "compareCreated P a b = num_sub (getTime P (createdAt b)) (getTime P (createdAt a))"

text \<open>The \<^verbatim>\<open>switch (sortBy)\<close>: \<^verbatim>\<open>'created'\<close> shares the \<^verbatim>\<open>default\<close> branch.\<close>

definition comparator :: "platform \<Rightarrow> string \<Rightarrow> task \<Rightarrow> task \<Rightarrow> number" where
  "comparator P sortBy =
     (if sortBy = ''dueDate'' then compareDueDate P
      else if sortBy = ''priority'' then comparePriority
      else compareCreated P)"

definition sortTasks :: "platform \<Rightarrow> task list \<Rightarrow> string \<Rightarrow> task list" where
  "sortTasks P tasks sortBy = (let sortedTasks = tasks in array_sort (comparator P sortBy) sortedTasks)"

text \<open>
  The same function on a store of arrays, where an array is known by its index in the
  store: \<^verbatim>\<open>[...tasks]\<close> allocates a new array with the elements of \<open>tasks\<close>, and
  \<^verbatim>\<open>sort\<close> overwrites the array it is called on. Spreading something that is not an array
  of the store raises a TypeError (\<open>None\<close>).
\<close>

type_synonym 'a store = "'a list list"

definition spread :: "'a store \<Rightarrow> nat \<Rightarrow> (nat \<times> 'a store) option" where
  "spread h r = (if r < length h then Some (length h, h @ [h ! r]) else None)"

definition sort_in_place :: "('a \<Rightarrow> 'a \<Rightarrow> number) \<Rightarrow> 'a store \<Rightarrow> nat \<Rightarrow> 'a store" where
  "sort_in_place cmp h r = h[r := array_sort cmp (h ! r)]"

definition sortTasks_store ::
    "platform \<Rightarrow> task store \<Rightarrow> nat \<Rightarrow> string \<Rightarrow> (nat \<times> task store) option" where
  "sortTasks_store P h tasks sortBy =
     (case spread h tasks of
        None \<Rightarrow> None
      | Some (sortedTasks, h1) \<Rightarrow>
          Some (sortedTasks, sort_in_place (comparator P sortBy) h1 sortedTasks))"

subsection \<open>filterTasksByTag, getAllTags, getTaskStats\<close>

text \<open>The tag argument is \<open>None\<close> when it is absent (\<^verbatim>\<open>undefined\<close>).\<close>

definition filterTasksByTag :: "task list \<Rightarrow> string option \<Rightarrow> task list" where
  "filterTasksByTag tasks tagFilter =
     (case tagFilter of
        None \<Rightarrow> tasks
      | Some f \<Rightarrow>
          if f = [] then tasks
          else filter (\<lambda>task. list_ex (\<lambda>tag. toLowerCase tag = toLowerCase f) (tags task)) tasks)"

definition getAllTags :: "task list \<Rightarrow> string list" where
  "getAllTags tasks = (let allTags = concat (map tags tasks) in sort (remove_duplicates allTags))"

definition getTaskStats :: "platform \<Rightarrow> env \<Rightarrow> task list \<Rightarrow> task_stats" where
  "getTaskStats P e tasks =
     (let n_total = length tasks;
          n_completed = length (filter completed tasks);
          n_pending = n_total - n_completed;
          n_overdue = length (filter (\<lambda>task. dueDate task \<noteq> [] \<and> \<not> completed task \<and>
                          num_lt (getTime P (dueDate task)) (num (clock e))) tasks)
      in \<lparr>total = n_total,
          completedCount = n_completed,
          pending = n_pending,
          overdueCount = n_overdue,
          completionRate =
            (if 0 < n_total
             then Math_round (num_mul (num_div (num (int n_completed)) (num (int n_total))) (num 100))
             else num 0)\<rparr>)"

section \<open>TodoApp\<close>

text \<open>
  The state of the running application: the fields of \<^verbatim>\<open>TodoApp\<close>, the value stored under
  \<^verbatim>\<open>'todo-tasks'\<close> in \<^verbatim>\<open>localStorage\<close>, and the parts of the page that the handlers read or
  write (the list shown, the count, the options of the tag filter, the notification, the
  edit dialog with its \<^verbatim>\<open>dataset.taskId\<close>, and the two forms). The HTML that
  \<^verbatim>\<open>renderTasks\<close> builds is represented by the tasks it shows; what the handlers write
  to the console is left out.
\<close>

record app =
  tasks :: "task list"
  currentFilter :: string
  currentSort :: string
  isDarkMode :: bool
  storedTasks :: "task list option"
  renderedTasks :: "task list"
  taskCountShown :: nat
  tagFilterOptions :: "string list"
  notification :: "(string \<times> string) option"
  editModalOpen :: bool
  editModalTaskId :: "string option"
  taskForm :: form_data
  editForm :: form_data

definition emptyForm :: form_data where
  "emptyForm = \<lparr>formText = [], formDueDate = [], formTags = []\<rparr>"

definition getFilteredTasks :: "platform \<Rightarrow> app \<Rightarrow> task list" where
  "getFilteredTasks P s =
     (let filteredTasks =
            (if currentFilter s \<noteq> [] then filterTasksByTag (tasks s) (Some (currentFilter s))
             else tasks s)
      in sortTasks P filteredTasks (currentSort s))"

definition render :: "platform \<Rightarrow> app \<Rightarrow> app" where
  "render P s =
     s\<lparr>renderedTasks := getFilteredTasks P s,
       taskCountShown := length (tasks s),
       tagFilterOptions := getAllTags (tasks s)\<rparr>"

text \<open>\<^verbatim>\<open>saveTasks\<close> catches a failing \<^verbatim>\<open>setItem\<close> and goes on.\<close>

definition saveAndRender :: "platform \<Rightarrow> env \<Rightarrow> app \<Rightarrow> app" where
  "saveAndRender P e s =
     render P (if storageWritable e then s\<lparr>storedTasks := Some (tasks s)\<rparr> else s)"

definition showNotification :: "string \<Rightarrow> string \<Rightarrow> app \<Rightarrow> app" where
  "showNotification message kind s = s\<lparr>notification := Some (message, kind)\<rparr>"

definition showEditModal :: "task \<Rightarrow> app \<Rightarrow> app" where
  "showEditModal t s =
     s\<lparr>editForm := \<lparr>formText = taskText t, formDueDate = dueDate t,
                    formTags = join '' '' (tags t)\<rparr>,
       editModalOpen := True,
       editModalTaskId := Some (taskId t)\<rparr>"

definition hideEditModal :: "app \<Rightarrow> app" where
  "hideEditModal s = s\<lparr>editModalOpen := False, editForm := emptyForm, editModalTaskId := None\<rparr>"

definition clearTaskForm :: "app \<Rightarrow> app" where
  "clearTaskForm s = s\<lparr>taskForm := emptyForm\<rparr>"

text \<open>\<^verbatim>\<open>this.tasks.find(t => t.id === taskId)\<close>: the position of the first task with that
  id. The handler then writes to the object found, which is the array's element there.\<close>

definition findTask :: "task list \<Rightarrow> string option \<Rightarrow> nat option" where
  "findTask ts wanted = (case wanted of None \<Rightarrow> None | Some i \<Rightarrow> indexOf (map taskId ts) i)"

definition handleTaskSubmit :: "platform \<Rightarrow> env \<Rightarrow> app \<Rightarrow> app" where
  "handleTaskSubmit P e s =
     (let formData = taskForm s;
          validation = validateTask P formData
      in if \<not> isValid validation
         then showNotification (join '', '' (errors validation)) ''error'' s
         else
           let newTask = createTask P e (formText formData) (formDueDate formData) (formTags formData);
               s1 = s\<lparr>tasks := newTask # tasks s\<rparr>
           in showNotification ''Task added successfully!'' ''success''
                (clearTaskForm (saveAndRender P e s1)))"

definition handleTaskEdit :: "string \<Rightarrow> app \<Rightarrow> app" where
  "handleTaskEdit wanted s =
     (case findTask (tasks s) (Some wanted) of
        None \<Rightarrow> s
      | Some i \<Rightarrow> showEditModal (tasks s ! i) s)"

definition handleEditSubmit :: "platform \<Rightarrow> env \<Rightarrow> app \<Rightarrow> app" where
  "handleEditSubmit P e s =
     (case findTask (tasks s) (editModalTaskId s) of
        None \<Rightarrow> hideEditModal s
      | Some i \<Rightarrow>
          let formData = editForm s;
              validation = validateTask P formData
          in if \<not> isValid validation
             then showNotification (join '', '' (errors validation)) ''error'' s
             else
               let t = tasks s ! i;
                   t1 = t\<lparr>taskText := trim (formText formData),
                          dueDate := formDueDate formData,
                          tags := parseTags (JSString (formTags formData)),
                          priority := calculatePriority P e (formDueDate formData)\<rparr>;
                   s1 = s\<lparr>tasks := (tasks s)[i := t1]\<rparr>
               in showNotification ''Task updated successfully!'' ''success''
                    (hideEditModal (saveAndRender P e s1)))"

section \<open>A host for the examples\<close>

text \<open>
  A host in the time zone UTC whose \<^verbatim>\<open>Date\<close> reads the two formats that the application
  itself produces: the value \<^verbatim>\<open>YYYY-MM-DD\<close> of a date input (midnight UTC of that day) and
  the output \<^verbatim>\<open>YYYY-MM-DDTHH:mm:ss.sssZ\<close> of \<^verbatim>\<open>toISOString\<close>. Every other string is an
  invalid date. It is used to run the definitions on concrete inputs; the theorems hold
  for every host.
\<close>

definition digit_value :: "char \<Rightarrow> int option" where
  "digit_value c = (let n = (of_char c :: int) in if 48 \<le> n \<and> n \<le> 57 then Some (n - 48) else None)"

fun decimal_from :: "int \<Rightarrow> string \<Rightarrow> int option" where
  "decimal_from acc [] = Some acc"
| "decimal_from acc (c # cs) =
     (case digit_value c of None \<Rightarrow> None | Some d \<Rightarrow> decimal_from (10 * acc + d) cs)"

definition decimal :: "string \<Rightarrow> int option" where
  "decimal s = (if s = [] then None else decimal_from 0 s)"

definition is_leap :: "int \<Rightarrow> bool" where
  "is_leap y = (if y mod 400 = 0 then True else if y mod 100 = 0 then False else y mod 4 = 0)"

definition days_in_month :: "int \<Rightarrow> int \<Rightarrow> int" where
  "days_in_month y m =
     (if m = 2 then (if is_leap y then 29 else 28)
      else if m = 4 \<or> m = 6 \<or> m = 9 \<or> m = 11 then 30 else 31)"

text \<open>Days between 1970-01-01 and a day of the proleptic Gregorian calendar, and back.\<close>

definition days_from_civil :: "int \<Rightarrow> int \<Rightarrow> int \<Rightarrow> int" where
  "days_from_civil y m d =
     (let y1 = (if m \<le> 2 then y - 1 else y);
          era = y1 div 400;
          yoe = y1 mod 400;
          doy = (153 * (if 2 < m then m - 3 else m + 9) + 2) div 5 + d - 1;
          doe = yoe * 365 + yoe div 4 - yoe div 100 + doy
      in era * 146097 + doe - 719468)"

definition civil_from_days :: "int \<Rightarrow> int \<times> int \<times> int" where
  "civil_from_days z0 =
     (let z = z0 + 719468;
          era = z div 146097;
          doe = z mod 146097;
          yoe = (doe - doe div 1460 + doe div 36524 - doe div 146096) div 365;
          doy = doe - (365 * yoe + yoe div 4 - yoe div 100);
          mp = (5 * doy + 2) div 153;
          d = doy - (153 * mp + 2) div 5 + 1;
          m = (if mp < 10 then mp + 3 else mp - 9);
          y = yoe + era * 400
      in (if m \<le> 2 then y + 1 else y, m, d))"

definition iso_day :: "string \<Rightarrow> int option" where
  "iso_day s =
     (if length s = 10 \<and> s ! 4 = CHR ''-'' \<and> s ! 7 = CHR ''-'' then
        (case (decimal (take 4 s), decimal (take 2 (drop 5 s)), decimal (drop 8 s)) of
           (Some y, Some m, Some d) \<Rightarrow>
             if 1 \<le> m \<and> m \<le> 12 \<and> 1 \<le> d \<and> d \<le> days_in_month y m
             then Some (days_from_civil y m d) else None
         | _ \<Rightarrow> None)
      else None)"

definition iso_time_of_day :: "string \<Rightarrow> int option" where
  "iso_time_of_day s =
     (if length s = 13 \<and> s ! 2 = CHR '':'' \<and> s ! 5 = CHR '':'' \<and> s ! 8 = CHR ''.'' \<and> s ! 12 = CHR ''Z''
      then
        (case (decimal (take 2 s), decimal (take 2 (drop 3 s)), decimal (take 2 (drop 6 s)),
               decimal (take 3 (drop 9 s))) of
           (Some h, Some mi, Some sec, Some ms) \<Rightarrow>
             if h < 24 \<and> mi < 60 \<and> sec < 60
             then Some (((h * 60 + mi) * 60 + sec) * 1000 + ms) else None
         | _ \<Rightarrow> None)
      else None)"

definition iso_parse :: "string \<Rightarrow> int option" where
  "iso_parse s =
     (if length s = 10 then map_option (\<lambda>d. d * 86400000) (iso_day s)
      else if length s = 24 \<and> s ! 10 = CHR ''T'' then
        (case (iso_day (take 10 s), iso_time_of_day (drop 11 s)) of
           (Some d, Some t) \<Rightarrow> Some (d * 86400000 + t)
         | _ \<Rightarrow> None)
      else None)"

definition pad :: "nat \<Rightarrow> int \<Rightarrow> string" where
  "pad w i = (let ds = int_toString 10 i in replicate (w - length ds) CHR ''0'' @ ds)"

definition iso_string :: "int \<Rightarrow> string" where
  "iso_string t =
     (let (y, m, d) = civil_from_days (t div 86400000);
          r = t mod 86400000
      in pad 4 y @ ''-'' @ pad 2 m @ ''-'' @ pad 2 d @ ''T''
         @ pad 2 (r div 3600000) @ '':'' @ pad 2 (r div 60000 mod 60) @ '':''
         @ pad 2 (r div 1000 mod 60) @ ''.'' @ pad 3 (r mod 1000) @ ''Z'')"

definition month_names :: "string list" where
  "month_names = [''Jan'', ''Feb'', ''Mar'', ''Apr'', ''May'', ''Jun'',
                  ''Jul'', ''Aug'', ''Sep'', ''Oct'', ''Nov'', ''Dec'']"

definition locale_date_string :: "int \<Rightarrow> string" where
  "locale_date_string t =
     (let (y, m, d) = civil_from_days (t div 86400000)
      in month_names ! nat (m - 1) @ '' '' @ int_toString 10 d @ '', '' @ int_toString 10 y)"

definition utcHost :: platform where
  "utcHost = \<lparr>dateParse = iso_parse, toISOString = iso_string,
              toLocaleDateString = locale_date_string\<rparr>"

section \<open>Orderings named by the specification\<close>

text \<open>The fixed rank of a priority: \<open>overdue(0) < high(1) < medium(2) < low(3)\<close>.\<close>

definition priority_rank :: "priority \<Rightarrow> int" where
  "priority_rank p = (case p of Overdue \<Rightarrow> 0 | High \<Rightarrow> 1 | Medium \<Rightarrow> 2 | Low \<Rightarrow> 3)"

text \<open>The order "by due date, tasks without a due date last": dated tasks come first
  (\<open>0\<close>), ordered by their time value, and the undated ones follow (\<open>1\<close>).\<close>

definition due_key :: "platform \<Rightarrow> task \<Rightarrow> nat \<times> int" where
  "due_key P t =
     (if dueDate t = [] then (1, 0)
      else case dateParse P (dueDate t) of Some v \<Rightarrow> (0, v) | None \<Rightarrow> (0, 0))"

text \<open>Two tasks whose due dates are both read by the host, the first not after the second.\<close>

definition due_le :: "platform \<Rightarrow> task \<Rightarrow> task \<Rightarrow> bool" where
  "due_le P a b =
     (case (dateParse P (dueDate a), dateParse P (dueDate b)) of
        (Some x, Some y) \<Rightarrow> x \<le> y
      | _ \<Rightarrow> False)"

section \<open>Example data\<close>

text \<open>Two readings of the clock, 2024-01-10T13:11:11.123Z and 2024-01-22T02:57:51.123Z, and
  a third environment that differs from the first in everything but the clock.\<close>

definition env_jan10 :: env where
  "env_jan10 = \<lparr>clock = 1704892271123, randomSuffix = ''k3x9q'', storageWritable = True\<rparr>"



definition task_milk :: task where
  "task_milk = \<lparr>taskId = ''a1'', taskText = ''Buy milk'', completed = False,
     dueDate = ''2024-01-11'', tags = [''#home''],
     createdAt = ''2024-01-08T09:00:00.000Z'', priority = High\<rparr>"

definition task_report :: task where
  "task_report = \<lparr>taskId = ''a2'', taskText = ''Write report'', completed = False,
     dueDate = [], tags = [''#work''],
     createdAt = ''2024-01-09T09:00:00.000Z'', priority = Low\<rparr>"

definition task_taxes :: task where
  "task_taxes = \<lparr>taskId = ''a3'', taskText = ''File taxes'', completed = True,
     dueDate = ''2024-01-05'', tags = [''#home'', ''#money''],
     createdAt = ''2024-01-07T09:00:00.000Z'', priority = Overdue\<rparr>"

definition task_call :: task where
  "task_call = \<lparr>taskId = ''a4'', taskText = ''Call Ana'', completed = False,
     dueDate = [], tags = [],
     createdAt = ''2024-01-10T08:00:00.000Z'', priority = Low\<rparr>"

definition example_tasks :: "task list" where
  "example_tasks = [task_milk, task_report, task_taxes, task_call]"

text \<open>Forty tasks, the first twenty-three of them completed.\<close>

definition forty_tasks :: "task list" where
  "forty_tasks =
     map (\<lambda>i. \<lparr>taskId = ''t'' @ int_toString 10 i, taskText = ''Task '' @ int_toString 10 i,
                completed = (i \<le> 23), dueDate = [], tags = [],
                createdAt = ''2024-01-08T09:00:00.000Z'', priority = Low\<rparr>) [1..40]"

definition app_jan10 :: app where
  "app_jan10 =
     \<lparr>tasks = example_tasks, currentFilter = [], currentSort = ''created'', isDarkMode = False,
      storedTasks = Some example_tasks,
      renderedTasks = [task_call, task_report, task_milk, task_taxes],
      taskCountShown = 4, tagFilterOptions = [''#home'', ''#money'', ''#work''],
      notification = None, editModalOpen = False, editModalTaskId = None,
      taskForm = emptyForm, editForm = emptyForm\<rparr>"

text \<open>The add form holding only blanks, and the edit dialog opened on the first task with
  its text field emptied, or filled in with new values.\<close>

definition app_blank_submit :: app where
  "app_blank_submit = app_jan10\<lparr>taskForm := \<lparr>formText = ''   '', formDueDate = ''2024-01-12'',
                                              formTags = ''#home''\<rparr>\<rparr>"

definition app_blank_edit :: app where
  "app_blank_edit = (handleTaskEdit ''a1'' app_jan10)\<lparr>editForm :=
     \<lparr>formText = [], formDueDate = ''2024-01-11'', formTags = ''#home''\<rparr>\<rparr>"

definition app_good_edit :: app where
  "app_good_edit = (handleTaskEdit ''a1'' app_jan10)\<lparr>editForm :=
     \<lparr>formText = '' Buy oat milk '', formDueDate = ''2024-01-13'', formTags = ''#Home #x''\<rparr>\<rparr>"

section \<open>Facts about strings and duplicate removal\<close>

lemma lower_char_idem: "lower_char (lower_char c) = lower_char c"
proof (cases "is_upper c")
  case False
  then show ?thesis by (simp add: lower_char_def)
next
  case True
  have r: "(of_char c :: int) + 32 < 256" "0 \<le> (of_char c :: int) + 32"
    using True by (auto simp: is_upper_def Let_def)
  have "(of_char (char_of ((of_char c :: int) + 32)) :: int) = of_char c + 32"
    using r by (simp add: of_char_of)
  then have "\<not> is_upper (char_of ((of_char c :: int) + 32))"
    using True by (auto simp: is_upper_def Let_def)
  then show ?thesis using True by (simp add: lower_char_def)
qed

lemma toLowerCase_idem: "toLowerCase (toLowerCase s) = toLowerCase s"
  by (simp add: toLowerCase_def lower_char_idem)

lemma lower_char_hash: "lower_char CHR ''#'' = CHR ''#''"
  by (simp add: lower_char_def is_upper_def)

lemma startsWith_toLowerCase:
  "startsWith t CHR ''#'' \<Longrightarrow> startsWith (toLowerCase t) CHR ''#''"
  by (cases t) (auto simp: startsWith_def toLowerCase_def lower_char_hash)

lemma indexOf_None_iff: "indexOf xs x = None \<longleftrightarrow> x \<notin> set xs"
  by (induction xs) auto

lemma indexOf_Some_less: "indexOf xs x = Some i \<Longrightarrow> i < length xs \<and> xs ! i = x"
  by (induction xs arbitrary: i) (auto split: if_splits)

lemma indexOf_append:
  "indexOf (pre @ xs) x =
     (case indexOf pre x of Some i \<Rightarrow> Some i
      | None \<Rightarrow> map_option (\<lambda>i. length pre + i) (indexOf xs x))"
proof (induction pre)
  case Nil
  show ?case by (cases "indexOf xs x") simp_all
next
  case (Cons p pre)
  then show ?case by (cases "indexOf pre x"; cases "indexOf xs x") simp_all
qed

lemma remove_duplicates_from_cong:
  "set a = set b \<Longrightarrow> remove_duplicates_from a xs = remove_duplicates_from b xs"
proof (induction xs arbitrary: a b)
  case Nil
  show ?case by simp
next
  case (Cons x xs)
  have "set (x # a) = set (x # b)" using Cons.prems by simp
  from Cons.IH[OF this] Cons.IH[OF Cons.prems] Cons.prems show ?case by simp
qed

lemma filter_first_index_gen:
  "map snd (filter (\<lambda>(i, x). indexOf (pre @ xs) x = Some i) (enumerate (length pre) xs))
   = remove_duplicates_from pre xs"
proof (induction xs arbitrary: pre)
  case Nil
  show ?case by simp
next
  case (Cons y ys)
  have hd_iff: "indexOf (pre @ y # ys) y = Some (length pre) \<longleftrightarrow> y \<notin> set pre"
    using indexOf_Some_less[of pre y]
    by (auto simp: indexOf_append indexOf_None_iff split: option.splits)
  have tl: "map snd (filter (\<lambda>(i, x). indexOf (pre @ y # ys) x = Some i)
               (enumerate (Suc (length pre)) ys))
            = remove_duplicates_from (pre @ [y]) ys"
    using Cons.IH[of "pre @ [y]"] by simp
  show ?case
  proof (cases "y \<in> set pre")
    case True
    then have "set (pre @ [y]) = set pre" by auto
    then show ?thesis using True hd_iff tl
      by (simp add: remove_duplicates_from_cong[of "pre @ [y]" pre])
  next
    case False
    have "set (pre @ [y]) = set (y # pre)" by auto
    then show ?thesis using False hd_iff tl
      by (simp add: remove_duplicates_from_cong[of "pre @ [y]" "y # pre"])
  qed
qed

lemma filter_first_index_eq: "filter_first_index xs = remove_duplicates xs"
  using filter_first_index_gen[of "[]" xs]
  by (simp add: filter_first_index_def remove_duplicates_def)

lemma set_remove_duplicates_from:
  "set (remove_duplicates_from seen xs) = set xs - set seen"
  by (induction xs arbitrary: seen) auto

lemma distinct_remove_duplicates_from: "distinct (remove_duplicates_from seen xs)"
  by (induction xs arbitrary: seen) (auto simp: set_remove_duplicates_from)

lemma set_remove_duplicates: "set (remove_duplicates xs) = set xs"
  by (simp add: remove_duplicates_def set_remove_duplicates_from)

lemma distinct_remove_duplicates: "distinct (remove_duplicates xs)"
  by (simp add: remove_duplicates_def distinct_remove_duplicates_from)

lemma split_ws_from_no_space:
  "\<forall>c \<in> set cur. \<not> is_space c \<Longrightarrow>
   \<forall>tok \<in> set (split_ws_from cur s). \<forall>c \<in> set tok. \<not> is_space c"
proof (induction cur s rule: split_ws_from.induct)
  case (1 cur)
  then show ?case by simp
next
  case (2 cur c cs)
  show ?case
  proof (cases "is_space c")
    case True
    have "\<forall>tok \<in> set (split_ws_from [] (dropWhile is_space cs)). \<forall>c \<in> set tok. \<not> is_space c"
      using "2.IH"(1)[OF True] by simp
    with True "2.prems" show ?thesis by simp
  next
    case False
    have "\<forall>tok \<in> set (split_ws_from (c # cur) cs). \<forall>c \<in> set tok. \<not> is_space c"
      using "2.IH"(2)[OF False] False "2.prems" by simp
    with False show ?thesis by simp
  qed
qed

lemma sum_length_split_ws_from:
  "sum_list (map length (split_ws_from cur s)) \<le> length cur + length s"
proof (induction cur s rule: split_ws_from.induct)
  case (1 cur)
  show ?case by simp
next
  case (2 cur c cs)
  show ?case
  proof (cases "is_space c")
    case True
    have "sum_list (map length (split_ws_from [] (dropWhile is_space cs)))
            \<le> length (dropWhile is_space cs)"
      using "2.IH"(1)[OF True] by simp
    also have "\<dots> \<le> length cs" by (rule length_dropWhile_le)
    finally show ?thesis using True by simp
  next
    case False
    then show ?thesis using "2.IH"(2)[OF False] by simp
  qed
qed

lemma count_nonempty_le_sum_length:
  "length (filter (\<lambda>t. t \<noteq> []) xs) \<le> sum_list (map length xs)"
proof (induction xs)
  case Nil
  show ?case by simp
next
  case (Cons x xs)
  then show ?case by (cases x) simp_all
qed

lemma length_filter_imp:
  "(\<And>x. P x \<Longrightarrow> Q x) \<Longrightarrow> length (filter P xs) \<le> length (filter Q xs)"
  by (induction xs) auto

lemma length_remove_duplicates_from: "length (remove_duplicates_from seen xs) \<le> length xs"
  by (induction xs arbitrary: seen) (auto simp: le_SucI)

lemma length_parseTags_le: "length (parseTags (JSString s)) \<le> length s"
proof (cases "s = []")
  case True
  then show ?thesis by (simp add: parseTags_def)
next
  case False
  let ?hash = "filter (\<lambda>tag. startsWith tag CHR ''#'') (split_ws s)"
  have "length (parseTags (JSString s)) = length (remove_duplicates (map toLowerCase ?hash))"
    using False by (simp add: parseTags_def filter_first_index_eq)
  also have "\<dots> \<le> length ?hash"
    using length_remove_duplicates_from[of "[]" "map toLowerCase ?hash"]
    by (simp add: remove_duplicates_def)
  also have "\<dots> \<le> length (filter (\<lambda>t. t \<noteq> []) (split_ws s))"
    by (rule length_filter_imp) (auto simp: startsWith_def)
  also have "\<dots> \<le> sum_list (map length (split_ws s))" by (rule count_nonempty_le_sum_length)
  also have "\<dots> \<le> length s" using sum_length_split_ws_from[of "[]" s] by (simp add: split_ws_def)
  finally show ?thesis .
qed


section \<open>Facts about rounding\<close>

text \<open>
  The error of one rounding is at most \<open>2^-53\<close> of the value, a positive value keeps its
  sign, and rounding never crosses an integer below \<open>2^53\<close>.
\<close>

lemma bitlen_powi_bounds:
  assumes "0 < a"
  shows "(2::rat) powi (bitlen a - 1) \<le> of_int a" "of_int a < (2::rat) powi bitlen a"
proof -
  from bitlen_bounds[OF assms] have lo: "2 ^ nat (bitlen a - 1) \<le> a" and hi: "a < 2 ^ nat (bitlen a)"
    by auto
  have "bitlen a \<noteq> 0" using assms by (simp add: bitlen_eq_zero_iff)
  then have pos: "0 < bitlen a" using bitlen_nonneg[of a] by linarith
  have "(2::rat) powi (bitlen a - 1) = 2 ^ nat (bitlen a - 1)"
    using pos by (simp add: power_int_def)
  also have "\<dots> = of_int (2 ^ nat (bitlen a - 1))" by simp
  also have "\<dots> \<le> of_int a" using lo by (simp only: of_int_le_iff)
  finally show "(2::rat) powi (bitlen a - 1) \<le> of_int a" .
  have "(of_int a :: rat) < of_int (2 ^ nat (bitlen a))" using hi by (simp only: of_int_less_iff)
  also have "\<dots> = 2 powi bitlen a" using pos by (simp add: power_int_def)
  finally show "of_int a < (2::rat) powi bitlen a" .
qed

lemma binade_bounds:
  assumes "0 < x"
  shows "2 powi binade x \<le> x" "x < 2 powi (binade x + 1)"
proof -
  obtain a b where q: "quotient_of x = (a, b)" by (cases "quotient_of x")
  have b: "0 < b" using q quotient_of_denom_pos by blast
  have x: "x = of_int a / of_int b" using q quotient_of_div by blast
  have a: "0 < a" using assms b x by (simp add: zero_less_divide_iff)
  let ?d = "bitlen a - bitlen b"
  note A = bitlen_powi_bounds[OF a] and B = bitlen_powi_bounds[OF b]
  have bpos: "(0::rat) < of_int b" using b by simp
  have up: "x < 2 powi (?d + 1)"
  proof -
    have "x < 2 powi bitlen a / of_int b" unfolding x using A(2) bpos by (simp add: divide_strict_right_mono)
    also have "\<dots> \<le> 2 powi bitlen a / 2 powi (bitlen b - 1)"
      using B(1) by (intro divide_left_mono) (auto simp: zero_less_power_int intro!: mult_pos_pos bpos)
    also have "\<dots> = 2 powi (bitlen a - (bitlen b - 1))" by (rule power_int_diff[symmetric]) simp
    also have "\<dots> = 2 powi (?d + 1)" by (simp add: algebra_simps)
    finally show ?thesis .
  qed
  have lo: "2 powi (?d - 1) \<le> x"
  proof -
    have "(2::rat) powi (?d - 1) = 2 powi (bitlen a - 1) / 2 powi bitlen b" by (simp add: power_int_diff)
    also have "\<dots> \<le> of_int a / 2 powi bitlen b" using A(1) by (simp add: divide_right_mono)
    also have "\<dots> \<le> of_int a / of_int b"
      using B(2) a bpos by (intro divide_left_mono) (auto intro!: mult_pos_pos)
    finally show ?thesis unfolding x .
  qed
  have bd: "binade x = (if 2 powi ?d \<le> x then ?d else ?d - 1)"
    by (simp add: binade_def q Let_def)
  show "2 powi binade x \<le> x" using lo by (auto simp: bd)
  show "x < 2 powi (binade x + 1)" using up by (auto simp: bd)
qed

lemma round_half_even_err: "\<bar>of_int (round_half_even y) - y\<bar> \<le> 1/2"
  unfolding round_half_even_def Let_def by (auto simp: abs_if; linarith)

lemma round_half_even_ge: "of_int k \<le> y \<Longrightarrow> k \<le> round_half_even y"
  unfolding round_half_even_def Let_def by (auto simp: le_floor_iff; linarith)

lemma round_half_even_le: "y \<le> of_int k \<Longrightarrow> round_half_even y \<le> k"
  unfolding round_half_even_def Let_def
  by (auto simp: le_floor_iff; linarith)

lemma fl_pos_shape:
  assumes "0 < x"
  obtains e y where "e = binade x - 52" "y = x / 2 powi e" "x = y * 2 powi e"
    "fl x = of_int (round_half_even y) * 2 powi e" "2 ^ 52 \<le> y" "y < 2 ^ 53"
proof -
  define e where "e = binade x - 52"
  define y where "y = x / 2 powi e"
  have p: "(0::rat) < 2 powi e" by (simp add: zero_less_power_int)
  have flx: "fl x = of_int (round_half_even y) * 2 powi e"
    using assms by (simp add: fl_def e_def y_def Let_def)
  have xy: "x = y * 2 powi e" using p by (simp add: y_def)
  have "e + 52 = binade x" by (simp add: e_def)
  then have "2 powi (e + 52) \<le> x" using binade_bounds(1)[OF assms] by (simp only:)
  then have "2 powi e * 2 ^ 52 \<le> x" by (simp add: power_int_add)
  then have lo: "2 ^ 52 \<le> y" using p by (simp add: y_def field_simps)
  have "e + 53 = binade x + 1" by (simp add: e_def)
  then have "x < 2 powi (e + 53)" using binade_bounds(2)[OF assms] by (simp only:)
  then have "x < 2 powi e * 2 ^ 53" by (simp add: power_int_add)
  then have hi: "y < 2 ^ 53" using p by (simp add: y_def field_simps)
  show thesis using that[OF e_def y_def xy flx lo hi] .
qed

lemma fl_err_pos:
  assumes "0 < x"
  shows "\<bar>fl x - x\<bar> \<le> x / 2 ^ 53"
proof -
  from fl_pos_shape[OF assms] obtain e y where
    xy: "x = y * 2 powi e" and flx: "fl x = of_int (round_half_even y) * 2 powi e"
    and lo: "2 ^ 52 \<le> y" by metis
  have p: "(0::rat) < 2 powi e" by (simp add: zero_less_power_int)
  have "2 powi e * 2 ^ 52 \<le> x" using lo p by (simp add: xy mult.commute)
  then have half: "2 powi e / 2 \<le> x / 2 ^ 53" by (simp add: field_simps)
  have "fl x - x = (of_int (round_half_even y) - y) * 2 powi e"
    by (subst (2) xy) (simp add: flx left_diff_distrib)
  then have "\<bar>fl x - x\<bar> = \<bar>of_int (round_half_even y) - y\<bar> * 2 powi e"
    using p by (simp add: abs_mult)
  also have "\<dots> \<le> 1/2 * 2 powi e"
    using round_half_even_err[of y] p by (intro mult_right_mono) auto
  also have "\<dots> \<le> x / 2 ^ 53" using half by simp
  finally show ?thesis .
qed

lemma fl_zero: "fl 0 = 0"
  by (simp add: fl_def)

lemma fl_minus: "fl (- x) = - fl x"
  by (simp add: fl_def Let_def sgn_minus)

lemma fl_pos: 
  assumes "0 < x" shows "0 < fl x"
proof -
  from fl_pos_shape[OF assms] obtain e y where
    flx: "fl x = of_int (round_half_even y) * 2 powi e" and lo: "2 ^ 52 \<le> y" by metis
  have "(of_int (2 ^ 52) :: rat) \<le> y" using lo by simp
  from round_half_even_ge[OF this] have "0 < round_half_even y" by simp
  then show ?thesis by (simp add: flx zero_less_power_int)
qed

lemma fl_pos_iff: "0 < fl x \<longleftrightarrow> 0 < x"
proof (cases "0 < x")
  case True
  then show ?thesis by (simp add: fl_pos)
next
  case False
  then have "x = 0 \<or> 0 < - x" by auto
  then show ?thesis
  proof
    assume "x = 0"
    then show ?thesis by (simp add: fl_zero)
  next
    assume "0 < - x"
    from fl_pos[OF this] have "fl x < 0" by (simp add: fl_minus)
    with False show ?thesis by simp
  qed
qed

lemma fl_err: "\<bar>fl x - x\<bar> \<le> \<bar>x\<bar> / 2 ^ 53"
proof -
  consider "0 < x" | "x = 0" | "0 < - x" by linarith
  then show ?thesis
  proof cases
    case 1
    then show ?thesis using fl_err_pos[OF 1] by simp
  next
    case 2
    then show ?thesis by (simp add: fl_zero)
  next
    case 3
    have "\<bar>fl x - x\<bar> = \<bar>fl (- x) - (- x)\<bar>" by (simp add: fl_minus)
    also have "\<dots> \<le> (- x) / 2 ^ 53" using fl_err_pos[OF 3] .
    finally show ?thesis using 3 by simp
  qed
qed

lemma powi_nonpos:
  assumes "e \<le> 0"
  shows "(2::rat) powi e = 1 / 2 ^ nat (- e)"
proof -
  have "(2::rat) powi e = inverse (2 powi (- e))" by (simp only: power_int_minus minus_minus inverse_inverse_eq)
  also have "(2::rat) powi (- e) = 2 ^ nat (- e)" using assms by (simp add: power_int_def)
  finally show ?thesis by (simp only: inverse_eq_divide)
qed

lemma fl_le_int_pos:
  assumes "0 < x" "x \<le> of_int k" "k < 2 ^ 53"
  shows "fl x \<le> of_int k"
proof -
  from fl_pos_shape[OF assms(1)] obtain e y where
    e: "e = binade x - 52" and y: "y = x / 2 powi e" and
    flx: "fl x = of_int (round_half_even y) * 2 powi e" by metis
  have p: "(0::rat) < 2 powi e" by (simp add: zero_less_power_int)
  have "(of_int k :: rat) < of_int (2 ^ 53)" using assms(3) by (simp only: of_int_less_iff)
  then have "x < 2 ^ 53" using assms(2) by simp
  then have "x < 2 powi 53" by simp
  have "2 powi binade x \<le> x" using binade_bounds(1)[OF assms(1)] .
  then have "(2::rat) powi binade x < 2 powi 53" using \<open>x < 2 powi 53\<close> by linarith
  then have "binade x < 53" by (rule power_int_le_imp_less_exp[rotated]) simp_all
  then have ele: "e \<le> 0" by (simp add: e)
  define K where "K = k * 2 ^ nat (- e)"
  have pe: "(2::rat) powi e = 1 / 2 ^ nat (- e)" using ele by (rule powi_nonpos)
  have yK: "y \<le> of_int K" using assms(2) by (simp add: y pe K_def mult_right_mono)
  from round_half_even_le[OF this] have "(of_int (round_half_even y) :: rat) \<le> of_int K" by (simp only: of_int_le_iff)
  then have "fl x \<le> of_int K * 2 powi e" using p by (simp add: flx mult_right_mono)
  also have "\<dots> = of_int k" by (simp add: K_def pe)
  finally show ?thesis .
qed

lemma fl_ge_int_pos:
  assumes "0 < x" "of_int k \<le> x" "k < 2 ^ 53"
  shows "of_int k \<le> fl x"
proof -
  from fl_pos_shape[OF assms(1)] obtain e y where
    e: "e = binade x - 52" and y: "y = x / 2 powi e" and
    flx: "fl x = of_int (round_half_even y) * 2 powi e" and lo: "2 ^ 52 \<le> y" by metis
  have p: "(0::rat) < 2 powi e" by (simp add: zero_less_power_int)
  show ?thesis
  proof (cases "e \<le> 0")
    case True
    define K where "K = k * 2 ^ nat (- e)"
    have pe: "(2::rat) powi e = 1 / 2 ^ nat (- e)" using True by (rule powi_nonpos)
    have yK: "of_int K \<le> y" using assms(2) by (simp add: y pe K_def mult_right_mono)
    from round_half_even_ge[OF this] have "(of_int K :: rat) \<le> of_int (round_half_even y)" by (simp only: of_int_le_iff)
    then have "of_int K * 2 powi e \<le> fl x" using p by (simp add: flx mult_right_mono)
    moreover have "of_int K * 2 powi e = (of_int k :: rat)" by (simp add: K_def pe)
    ultimately show ?thesis by simp
  next
    case False
    then have e1: "1 \<le> e" by simp
    have "(of_int (2 ^ 52) :: rat) \<le> y" using lo by simp
    from round_half_even_ge[OF this] have "(of_int (2 ^ 52) :: rat) \<le> of_int (round_half_even y)"
      by (simp only: of_int_le_iff)
    then have m: "(2 ^ 52 :: rat) \<le> of_int (round_half_even y)" by simp
    have "(2::rat) powi 1 \<le> 2 powi e" by (rule power_int_increasing) (use e1 in simp_all)
    then have p2: "(2::rat) \<le> 2 powi e" by simp
    have "(2 ^ 52 :: rat) * 2 \<le> of_int (round_half_even y) * 2 powi e"
      using m p2 by (intro mult_mono) auto
    then have "(2 ^ 53 :: rat) \<le> fl x" by (simp add: flx)
    moreover have "(of_int k :: rat) < of_int (2 ^ 53)" using assms(3) by (simp only: of_int_less_iff)
    then have "(of_int k :: rat) < 2 ^ 53" by simp
    ultimately show ?thesis by linarith
  qed
qed

lemma fl_le_int:
  assumes "x \<le> of_int k" "\<bar>k\<bar> < 2 ^ 53"
  shows "fl x \<le> of_int k"
proof -
  consider "0 < x" | "x = 0" | "0 < - x" by linarith
  then show ?thesis
  proof cases
    case 1
    then show ?thesis using fl_le_int_pos[OF 1 assms(1)] assms(2) by simp
  next
    case 2
    then show ?thesis using assms(1) by (simp add: fl_zero)
  next
    case 3
    show ?thesis
    proof (cases "0 \<le> k")
      case True
      have "fl x < 0" using fl_pos[OF 3] by (simp add: fl_minus)
      moreover have "(0::rat) \<le> of_int k" using True by simp
      ultimately show ?thesis by linarith
    next
      case False
      have "of_int (- k) \<le> - x" using assms(1) by simp
      from fl_ge_int_pos[OF 3 this] assms(2) False have "of_int (- k) \<le> fl (- x)" by simp
      then show ?thesis by (simp add: fl_minus)
    qed
  qed
qed

lemma fl_ge_int:
  assumes "of_int k \<le> x" "\<bar>k\<bar> < 2 ^ 53"
  shows "of_int k \<le> fl x"
proof -
  have "- x \<le> of_int (- k)" using assms(1) by simp
  from fl_le_int[OF this] assms(2) have "fl (- x) \<le> of_int (- k)" by simp
  then show ?thesis by (simp add: fl_minus)
qed

lemma fl_of_int: "\<bar>i\<bar> < 2 ^ 53 \<Longrightarrow> fl (of_int i) = of_int i"
  using fl_le_int[of "of_int i" i] fl_ge_int[of i "of_int i"] by simp


section \<open>The day difference\<close>

text \<open>
  Dividing a difference of time values by the milliseconds of a day and rounding twice
  leaves the quotient on the same side of the integers from \<open>-3\<close> to \<open>3\<close>, so that
  \<^verbatim>\<open>Math.ceil\<close> of it compares with them as the exact ceiling does.
\<close>

lemma day_quotient_le_iff:
  assumes "\<bar>k\<bar> \<le> 3"
  shows "fl (fl (of_int i) / 86400000) \<le> of_int k \<longleftrightarrow> i \<le> k * 86400000"
proof
  assume le: "i \<le> k * 86400000"
  have kb: "\<bar>k * 86400000\<bar> < 2 ^ 53" using assms by (simp add: abs_mult)
  have "(of_int i :: rat) \<le> of_int (k * 86400000)" using le by (simp only: of_int_le_iff)
  from fl_le_int[OF this kb] have "fl (of_int i) \<le> of_int k * 86400000" by simp
  then have "fl (of_int i) / 86400000 \<le> of_int k" by (simp add: field_simps)
  from fl_le_int[OF this] assms show "fl (fl (of_int i) / 86400000) \<le> of_int k" by simp
next
  assume le: "fl (fl (of_int i) / 86400000) \<le> of_int k"
  show "i \<le> k * 86400000"
  proof (rule ccontr)
    assume "\<not> i \<le> k * 86400000"
    then have "k * 86400000 + 1 \<le> i" by simp
    then have i: "(of_int (k * 86400000 + 1) :: rat) \<le> of_int i" by (simp only: of_int_le_iff)
    have kb: "\<bar>k * 86400000 + 1\<bar> < 2 ^ 53" using assms by simp
    from fl_ge_int[OF i kb] have D: "of_int k * 86400000 + 1 \<le> fl (of_int i)" by simp
    define x where "x = fl (of_int i) / 86400000"
    have x: "of_int k + 1 / 86400000 \<le> x" using D by (simp add: x_def field_simps)
    have k3: "(of_int k :: rat) \<le> 3" "(- 3 :: rat) \<le> of_int k" using assms by simp_all
    have "of_int k < fl x"
    proof (cases "4 \<le> x")
      case True
      then have "(of_int 4 :: rat) \<le> x" by simp
      from fl_ge_int[OF this] have "4 \<le> fl x" by simp
      then show ?thesis using k3 by linarith
    next
      case False
      then have "\<bar>x\<bar> < 4" using x k3 by (simp add: abs_if)
      then have "\<bar>x\<bar> / 2 ^ 53 < 4 / 2 ^ 53" by (simp add: divide_strict_right_mono)
      with fl_err[of x] have "\<bar>fl x - x\<bar> < 4 / 2 ^ 53" by linarith
      moreover have "(4 :: rat) / 2 ^ 53 < 1 / 86400000" by simp
      ultimately show ?thesis using x by (simp add: abs_if split: if_splits)
    qed
    with le show False by (simp add: x_def)
  qed
qed

lemma day_ceiling_le_iff:
  assumes "\<bar>k\<bar> \<le> 3"
  shows "\<lceil>fl (fl (of_int i) / 86400000)\<rceil> \<le> k \<longleftrightarrow> \<lceil>(of_int i :: rat) / 86400000\<rceil> \<le> k"
proof -
  have "\<lceil>(of_int i :: rat) / 86400000\<rceil> \<le> k \<longleftrightarrow> (of_int i :: rat) \<le> of_int (k * 86400000)"
    by (simp add: ceiling_le_iff field_simps)
  also have "\<dots> \<longleftrightarrow> i \<le> k * 86400000" by (simp only: of_int_le_iff)
  finally show ?thesis using day_quotient_le_iff[OF assms, of i] by (simp add: ceiling_le_iff)
qed

lemma diffDays_parsed:
  assumes "dateParse P due = Some t"
  shows "diffDays P e due = Some (of_int \<lceil>fl (fl (of_int (t - clock e)) / 86400000)\<rceil>)"
  using assms
  by (simp add: diffDays_def getTime_def num_def num_sub_def num_div_def Math_ceil_def Let_def)

lemma diffDays_invalid:
  assumes "dateParse P due = None"
  shows "diffDays P e due = None"
  using assms
  by (simp add: diffDays_def getTime_def num_def num_sub_def num_div_def Math_ceil_def Let_def)

lemma calculatePriority_parsed:
  assumes "due \<noteq> []" "dateParse P due = Some t"
  shows "calculatePriority P e due =
    (let n = \<lceil>(of_int (t - clock e) :: rat) / 86400000\<rceil>
     in if n < 0 then Overdue else if n \<le> 1 then High else if n \<le> 3 then Medium else Low)"
proof -
  define m where "m = \<lceil>fl (fl (of_int (t - clock e)) / 86400000)\<rceil>"
  define n where "n = \<lceil>(of_int (t - clock e) :: rat) / 86400000\<rceil>"
  have a: "m \<le> - 1 \<longleftrightarrow> n \<le> - 1" unfolding m_def n_def by (rule day_ceiling_le_iff) simp
  have b: "m \<le> 1 \<longleftrightarrow> n \<le> 1" unfolding m_def n_def by (rule day_ceiling_le_iff) simp
  have c: "m \<le> 3 \<longleftrightarrow> n \<le> 3" unfolding m_def n_def by (rule day_ceiling_le_iff) simp
  have a': "m < 0 \<longleftrightarrow> n < 0" using a by linarith
  have "calculatePriority P e due =
      (if m < 0 then Overdue else if m \<le> 1 then High else if m \<le> 3 then Medium else Low)"
    using assms(1)
    by (simp add: calculatePriority_def diffDays_parsed[OF assms(2)] m_def num_lt_def num_le_def
        num_def Let_def)
  then show ?thesis using a' b c by (simp add: n_def Let_def)
qed


section \<open>Facts about sorting\<close>

text \<open>
  The model of \<^verbatim>\<open>sort\<close> returns a permutation; its result is a fixed point as soon as the
  comparator never says "after" in both directions; and with a comparator that compares
  a key it is the stable insertion sort \<^const>\<open>sort_key\<close> of the library.
\<close>

lemma num_gt0_sub: "num_lt (num 0) (num_sub (Some a) (Some b)) \<longleftrightarrow> b < a"
  using fl_pos_iff[of "a - b"] by (simp add: num_lt_def num_def num_sub_def)

lemma num_gt0_sub_None: "\<not> num_lt (num 0) (num_sub None b)" "\<not> num_lt (num 0) (num_sub a None)"
  by (simp_all add: num_lt_def num_sub_def split: option.splits)

lemma num_gt0_num: "num_lt (num 0) (num i) \<longleftrightarrow> 0 < i"
  by (simp add: num_lt_def num_def)

lemma mset_insert_sorted: "mset (insert_sorted cmp x ys) = add_mset x (mset ys)"
  by (induction ys) simp_all

lemma mset_array_sort: "mset (array_sort cmp xs) = mset xs"
  by (induction xs) (simp_all add: array_sort_def mset_insert_sorted)

lemma set_array_sort: "set (array_sort cmp xs) = set xs"
  using mset_array_sort[of cmp xs] by (metis set_mset_mset)

lemma array_sort_Cons: "array_sort cmp (x # xs) = insert_sorted cmp x (array_sort cmp xs)"
  by (simp add: array_sort_def)

lemma array_sort_Nil: "array_sort cmp [] = []"
  by (simp add: array_sort_def)

lemma hd_insert_sorted:
  "hd (insert_sorted cmp x ys) = x \<or> (ys \<noteq> [] \<and> num_lt (num 0) (cmp x (hd ys)) \<and> hd (insert_sorted cmp x ys) = hd ys)"
  by (cases ys) simp_all

lemma insert_sorted_not_Nil: "insert_sorted cmp x ys \<noteq> []"
  by (cases ys) simp_all

lemma successively_tl: "successively R (y # ys) \<Longrightarrow> successively R ys"
  by (cases ys) simp_all

lemma successively_insert_sorted:
  assumes asym: "\<And>a b. num_lt (num 0) (cmp a b) \<Longrightarrow> \<not> num_lt (num 0) (cmp b a)"
  shows "successively (\<lambda>a b. \<not> num_lt (num 0) (cmp a b)) ys \<Longrightarrow>
         successively (\<lambda>a b. \<not> num_lt (num 0) (cmp a b)) (insert_sorted cmp x ys)"
proof (induction ys)
  case Nil
  show ?case by simp
next
  case (Cons y ys)
  let ?R = "\<lambda>a b. \<not> num_lt (num 0) (cmp a b)"
  show ?case
  proof (cases "num_lt (num 0) (cmp x y)")
    case False
    then show ?thesis using Cons.prems by (simp add: successively_Cons)
  next
    case True
    have tl: "successively ?R ys" using Cons.prems by (rule successively_tl)
    have ih: "successively ?R (insert_sorted cmp x ys)" using Cons.IH[OF tl] .
    have "?R y (hd (insert_sorted cmp x ys))"
      using hd_insert_sorted[of cmp x ys] asym[OF True] Cons.prems
      by (auto simp: successively_Cons)
    then show ?thesis using True ih insert_sorted_not_Nil[of cmp x ys]
      by (simp add: successively_Cons)
  qed
qed

lemma successively_array_sort:
  assumes asym: "\<And>a b. num_lt (num 0) (cmp a b) \<Longrightarrow> \<not> num_lt (num 0) (cmp b a)"
  shows "successively (\<lambda>a b. \<not> num_lt (num 0) (cmp a b)) (array_sort cmp xs)"
proof (induction xs)
  case Nil
  show ?case by (simp add: array_sort_Nil)
next
  case (Cons x xs)
  show ?case unfolding array_sort_Cons
    by (rule successively_insert_sorted[OF asym Cons.IH])
qed

lemma array_sort_fixed:
  "successively (\<lambda>a b. \<not> num_lt (num 0) (cmp a b)) xs \<Longrightarrow> array_sort cmp xs = xs"
proof (induction xs)
  case Nil
  show ?case by (simp add: array_sort_Nil)
next
  case (Cons x xs)
  have tl: "successively (\<lambda>a b. \<not> num_lt (num 0) (cmp a b)) xs"
    using Cons.prems by (rule successively_tl)
  have "array_sort cmp (x # xs) = insert_sorted cmp x xs"
    by (simp add: array_sort_Cons Cons.IH[OF tl])
  also have "\<dots> = x # xs" using Cons.prems by (cases xs) (simp_all add: successively_Cons)
  finally show ?case .
qed

lemma array_sort_idem:
  assumes asym: "\<And>a b. num_lt (num 0) (cmp a b) \<Longrightarrow> \<not> num_lt (num 0) (cmp b a)"
  shows "array_sort cmp (array_sort cmp xs) = array_sort cmp xs"
  by (rule array_sort_fixed[OF successively_array_sort[OF asym]])

lemma getTime_cases:
  obtains "getTime P s = None" "dateParse P s = None"
  | t where "getTime P s = Some (of_int t)" "dateParse P s = Some t"
  by (cases "dateParse P s") (auto simp: getTime_def num_def)

lemma compareCreated_gt0:
  "num_lt (num 0) (compareCreated P a b) \<longleftrightarrow>
     (\<exists>ta tb. dateParse P (createdAt a) = Some ta \<and> dateParse P (createdAt b) = Some tb \<and> ta < tb)"
  by (cases P "createdAt a" rule: getTime_cases; cases P "createdAt b" rule: getTime_cases)
     (simp_all add: compareCreated_def num_gt0_sub num_gt0_sub_None)

lemma priorityOrder_rank: "priorityOrder p = Some (of_int (priority_rank p))"
  by (cases p) (simp_all add: priorityOrder_def priority_rank_def num_def)

lemma comparePriority_gt0:
  "num_lt (num 0) (comparePriority a b) \<longleftrightarrow> priority_rank (priority b) < priority_rank (priority a)"
  by (simp add: comparePriority_def priorityOrder_rank num_gt0_sub)

lemma compareDueDate_gt0:
  "num_lt (num 0) (compareDueDate P a b) \<longleftrightarrow>
     (if dueDate a = [] then dueDate b \<noteq> []
      else dueDate b \<noteq> [] \<and>
        (\<exists>ta tb. dateParse P (dueDate a) = Some ta \<and> dateParse P (dueDate b) = Some tb \<and> tb < ta))"
  by (cases P "dueDate a" rule: getTime_cases; cases P "dueDate b" rule: getTime_cases)
     (simp_all add: compareDueDate_def num_gt0_sub num_gt0_sub_None num_gt0_num)

lemma comparator_asym:
  "num_lt (num 0) (comparator P sortBy a b) \<Longrightarrow> \<not> num_lt (num 0) (comparator P sortBy b a)"
  by (auto simp: comparator_def compareCreated_gt0 comparePriority_gt0 compareDueDate_gt0
           split: if_splits)

lemma sortTasks_idem: "sortTasks P (sortTasks P xs sortBy) sortBy = sortTasks P xs sortBy"
  unfolding sortTasks_def Let_def by (rule array_sort_idem) (rule comparator_asym)

lemma mset_sortTasks: "mset (sortTasks P xs sortBy) = mset xs"
  by (simp add: sortTasks_def mset_array_sort)

lemma insert_sorted_insort_key:
  fixes key :: "'a \<Rightarrow> 'k::linorder"
  assumes "\<And>y. y \<in> set ys \<Longrightarrow> num_lt (num 0) (cmp x y) \<longleftrightarrow> key y < key x"
  shows "insert_sorted cmp x ys = insort_key key x ys"
  using assms by (induction ys) (auto simp: not_less)

lemma array_sort_sort_key:
  fixes key :: "'a \<Rightarrow> 'k::linorder"
  assumes "\<And>a b. a \<in> set xs \<Longrightarrow> b \<in> set xs \<Longrightarrow> num_lt (num 0) (cmp a b) \<longleftrightarrow> key b < key a"
  shows "array_sort cmp xs = sort_key key xs"
  using assms
proof (induction xs)
  case Nil
  show ?case by (simp add: array_sort_Nil)
next
  case (Cons x xs)
  have ih: "array_sort cmp xs = sort_key key xs" using Cons.prems by (intro Cons.IH) simp_all
  have "insert_sorted cmp x (sort_key key xs) = insort_key key x (sort_key key xs)"
    using Cons.prems by (intro insert_sorted_insort_key) simp
  then show ?case by (simp add: array_sort_Cons ih)
qed

lemma sortTasks_priority_sort_key:
  "sortTasks P xs ''priority'' = sort_key (\<lambda>t. priority_rank (priority t)) xs"
  unfolding sortTasks_def Let_def
  by (rule array_sort_sort_key) (simp add: comparator_def comparePriority_gt0)

lemma priority_rank_inj: "priority_rank p = priority_rank q \<longleftrightarrow> p = q"
  by (cases p; cases q) (simp_all add: priority_rank_def)

lemma sortTasks_priority_stable:
  "filter (\<lambda>t. priority t = k) (sortTasks P xs ''priority'') = filter (\<lambda>t. priority t = k) xs"
  using sort_key_stable[of "\<lambda>t. priority_rank (priority t)" "priority_rank k" xs]
  by (simp add: sortTasks_priority_sort_key priority_rank_inj)

lemma sortTasks_priority_sorted:
  "sorted (map (\<lambda>t. priority_rank (priority t)) (sortTasks P xs ''priority''))"
  by (simp add: sortTasks_priority_sort_key)

lemma sortTasks_store_eq:
  "sortTasks_store P h r sortBy =
     (if r < length h then Some (length h, h @ [sortTasks P (h ! r) sortBy]) else None)"
  by (simp add: sortTasks_store_def spread_def sort_in_place_def sortTasks_def Let_def)


section \<open>Sorting by due date\<close>

lemma compareDueDate_due_key:
  assumes "dueDate a \<noteq> [] \<longrightarrow> dateParse P (dueDate a) \<noteq> None"
      and "dueDate b \<noteq> [] \<longrightarrow> dateParse P (dueDate b) \<noteq> None"
  shows "num_lt (num 0) (compareDueDate P a b) \<longleftrightarrow> due_key P b < due_key P a"
  using assms by (auto simp: compareDueDate_gt0 due_key_def)

lemma sortTasks_dueDate_sort_key:
  assumes "\<And>t. t \<in> set xs \<Longrightarrow> dueDate t \<noteq> [] \<Longrightarrow> dateParse P (dueDate t) \<noteq> None"
  shows "sortTasks P xs ''dueDate'' = sort_key (due_key P) xs"
  unfolding sortTasks_def Let_def
proof (rule array_sort_sort_key)
  fix a b assume "a \<in> set xs" "b \<in> set xs"
  then show "num_lt (num 0) (comparator P ''dueDate'' a b) \<longleftrightarrow> due_key P b < due_key P a"
    using assms by (simp add: comparator_def compareDueDate_due_key)
qed

lemma sorted_partition:
  fixes key :: "'a \<Rightarrow> 'k::linorder"
  assumes sep: "\<And>a b. Q a \<Longrightarrow> \<not> Q b \<Longrightarrow> key a < key b"
  shows "sorted (map key ys) \<Longrightarrow> ys = filter Q ys @ filter (\<lambda>t. \<not> Q t) ys"
proof (induction ys)
  case Nil
  show ?case by simp
next
  case (Cons y ys)
  have tl: "sorted (map key ys)" and le: "\<forall>z \<in> set ys. key y \<le> key z"
    using Cons.prems by simp_all
  show ?case
  proof (cases "Q y")
    case True
    then show ?thesis using Cons.IH[OF tl] by simp
  next
    case False
    have "\<forall>z \<in> set ys. \<not> Q z"
    proof
      fix z assume z: "z \<in> set ys"
      show "\<not> Q z"
      proof
        assume "Q z"
        from sep[OF this False] le z show False by fastforce
      qed
    qed
    then have "filter Q ys = []" "filter (\<lambda>t. \<not> Q t) ys = ys" by (simp_all add: filter_empty_conv)
    then show ?thesis using False by simp
  qed
qed

lemma due_key_undated: "due_key P t = (1, 0) \<longleftrightarrow> dueDate t = []"
  by (simp add: due_key_def split: option.splits)

lemma due_key_sep: "dueDate a \<noteq> [] \<Longrightarrow> \<not> dueDate b \<noteq> [] \<Longrightarrow> due_key P a < due_key P b"
  by (simp add: due_key_def split: option.splits)

lemma due_key_le_due_le:
  assumes "dueDate a \<noteq> []" "dateParse P (dueDate a) \<noteq> None"
      and "dueDate b \<noteq> []" "dateParse P (dueDate b) \<noteq> None"
      and "due_key P a \<le> due_key P b"
  shows "due_le P a b"
  using assms by (auto simp: due_key_def due_le_def)

lemma sortTasks_dueDate_props:
  assumes valid: "\<And>t. t \<in> set xs \<Longrightarrow> dueDate t \<noteq> [] \<Longrightarrow> dateParse P (dueDate t) \<noteq> None"
  defines "ys \<equiv> sortTasks P xs ''dueDate''"
  shows "ys = filter (\<lambda>t. dueDate t \<noteq> []) ys @ filter (\<lambda>t. \<not> dueDate t \<noteq> []) ys"
    and "sorted_wrt (due_le P) (filter (\<lambda>t. dueDate t \<noteq> []) ys)"
    and "filter (\<lambda>t. dueDate t = []) ys = filter (\<lambda>t. dueDate t = []) xs"
proof -
  have ys: "ys = sort_key (due_key P) xs"
    unfolding ys_def using valid by (rule sortTasks_dueDate_sort_key)
  have srt: "sorted (map (due_key P) ys)" by (simp add: ys)
  have set_ys: "set ys = set xs" by (simp add: ys)
  show "ys = filter (\<lambda>t. dueDate t \<noteq> []) ys @ filter (\<lambda>t. \<not> dueDate t \<noteq> []) ys"
    using srt by (rule sorted_partition[rotated]) (rule due_key_sep)
  have "sorted (map (due_key P) (filter (\<lambda>t. dueDate t \<noteq> []) ys))"
    using srt by (rule sorted_filter)
  then have "sorted_wrt (\<lambda>a b. due_key P a \<le> due_key P b) (filter (\<lambda>t. dueDate t \<noteq> []) ys)"
    by (simp add: sorted_map)
  then show "sorted_wrt (due_le P) (filter (\<lambda>t. dueDate t \<noteq> []) ys)"
  proof (rule sorted_wrt_mono_rel[rotated])
    fix a b
    assume "a \<in> set (filter (\<lambda>t. dueDate t \<noteq> []) ys)" "b \<in> set (filter (\<lambda>t. dueDate t \<noteq> []) ys)"
      and "due_key P a \<le> due_key P b"
    then show "due_le P a b" using valid set_ys by (intro due_key_le_due_le) auto
  qed
  show "filter (\<lambda>t. dueDate t = []) ys = filter (\<lambda>t. dueDate t = []) xs"
    using sort_key_stable[of "due_key P" "(1, 0)" xs] by (simp only: ys due_key_undated)
qed


section \<open>The completion rate\<close>

text \<open>
  The value \<^verbatim>\<open>(completed / total) * 100\<close> is rounded twice before \<^verbatim>\<open>Math.round\<close> sees it.
  The two roundings move it by at most \<open>201 * 2^-53\<close>, which is less than its distance to
  the next half-integer unless it is a half-integer itself.
\<close>

lemma rate_error:
  fixes c t :: int
  assumes "0 \<le> c" "c \<le> t" "0 < t"
  shows "\<bar>fl (fl (of_int c / of_int t) * 100) - 100 * of_int c / of_int t\<bar> \<le> 201 / 2 ^ 53"
proof -
  define x :: rat where "x = of_int c / of_int t"
  define q where "q = fl x"
  have x01: "0 \<le> x" "x \<le> 1" using assms by (simp_all add: x_def)
  have "\<bar>q - x\<bar> \<le> \<bar>x\<bar> / 2 ^ 53" unfolding q_def by (rule fl_err)
  also have "\<dots> \<le> 1 / 2 ^ 53" using x01 by (simp add: divide_right_mono)
  finally have qx: "\<bar>q - x\<bar> \<le> 1 / 2 ^ 53" .
  then have qb: "\<bar>q\<bar> \<le> 101 / 100" using x01 by (simp add: abs_if split: if_splits)
  have "\<bar>fl (q * 100) - q * 100\<bar> \<le> \<bar>q * 100\<bar> / 2 ^ 53" by (rule fl_err)
  also have "\<dots> \<le> 101 / 2 ^ 53" using qb by (simp add: abs_mult divide_right_mono)
  finally have pq: "\<bar>fl (q * 100) - q * 100\<bar> \<le> 101 / 2 ^ 53" .
  have "\<bar>q * 100 - 100 * x\<bar> = 100 * \<bar>q - x\<bar>" by (simp add: abs_if)
  then have "\<bar>q * 100 - 100 * x\<bar> \<le> 100 / 2 ^ 53" using qx by simp
  with pq have "\<bar>fl (q * 100) - 100 * x\<bar> \<le> 201 / 2 ^ 53" by (simp add: abs_if split: if_splits)
  then show ?thesis by (simp add: q_def x_def)
qed

lemma rate_round:
  fixes c t :: int
  assumes "0 \<le> c" "c \<le> t" "0 < t" "t < 2 ^ 32"
  defines "p \<equiv> fl (fl (of_int c / of_int t) * 100)"
  defines "k \<equiv> (200 * c + t) div (2 * t)"
  shows "(200 * c + t) mod (2 * t) \<noteq> 0 \<Longrightarrow> \<lfloor>p + 1 / 2\<rfloor> = k"
    and "\<lfloor>p + 1 / 2\<rfloor> = k \<or> \<lfloor>p + 1 / 2\<rfloor> = k - 1"
proof -
  define r where "r = (200 * c + t) mod (2 * t)"
  define v :: rat where "v = 100 * of_int c / of_int t"
  have tpos: "(0::rat) < of_int t" using assms(3) by simp
  have N: "200 * c + t = k * (2 * t) + r" by (simp only: k_def r_def div_mult_mod_eq)
  have r: "0 \<le> r" "r < 2 * t" using assms(3) by (simp_all add: r_def)
  have "of_int (200 * c + t) = (of_int (k * (2 * t) + r) :: rat)" using N by (simp only:)
  then have "200 * of_int c + of_int t = 2 * of_int k * of_int t + (of_int r :: rat)" by simp
  then have v: "v + 1 / 2 = of_int k + of_int r / (2 * of_int t)"
    using tpos by (simp add: v_def field_simps)
  have err: "\<bar>p - v\<bar> \<le> 201 / 2 ^ 53" unfolding p_def v_def by (rule rate_error) fact+
  have "(of_int t :: rat) < of_int (2 ^ 32)" using assms(4) by (simp only: of_int_less_iff)
  then have t32: "(of_int t :: rat) < 2 ^ 32" by simp
  have "(1 :: rat) / (2 * 2 ^ 32) < 1 / (2 * of_int t)"
    using t32 tpos by (simp add: field_simps)
  moreover have "(201 :: rat) / 2 ^ 53 < 1 / (2 * 2 ^ 32)" by simp
  ultimately have small: "(201 :: rat) / 2 ^ 53 < 1 / (2 * of_int t)" by linarith
  have rfrac: "of_int r / (2 * of_int t) < (1::rat)" "(0::rat) \<le> of_int r / (2 * of_int t)"
    using r tpos by (simp_all add: field_simps) 
  have up: "p + 1 / 2 < of_int k + 1"
  proof -
    have "r \<le> 2 * t - 1" using r by simp
    then have "(of_int r :: rat) \<le> of_int (2 * t - 1)" by (simp only: of_int_le_iff)
    then have "(of_int r :: rat) / (2 * of_int t) \<le> (2 * of_int t - 1) / (2 * of_int t)"
      using tpos by (simp add: divide_right_mono)
    also have "\<dots> = 1 - 1 / (2 * of_int t)" using tpos by (simp add: field_simps)
    finally have "v + 1 / 2 \<le> of_int k + 1 - 1 / (2 * of_int t)" using v by simp
    then show ?thesis using err small by (simp add: abs_if split: if_splits)
  qed
  have lo1: "of_int (k - 1) \<le> p + 1 / 2"
  proof -
    have "(1 :: rat) / (2 * of_int t) \<le> 1" using assms(3) tpos by (simp add: field_simps)
    then show ?thesis using v rfrac(2) err small by (simp add: abs_if split: if_splits)
  qed
  show "\<lfloor>p + 1 / 2\<rfloor> = k \<or> \<lfloor>p + 1 / 2\<rfloor> = k - 1"
  proof (cases "of_int k \<le> p + 1 / 2")
    case True
    then have "\<lfloor>p + 1 / 2\<rfloor> = k" using up by (intro floor_unique) simp_all
    then show ?thesis by simp
  next
    case False
    then have "\<lfloor>p + 1 / 2\<rfloor> = k - 1" using lo1 by (intro floor_unique) simp_all
    then show ?thesis by simp
  qed
  show "\<lfloor>p + 1 / 2\<rfloor> = k" if "(200 * c + t) mod (2 * t) \<noteq> 0"
  proof -
    have "1 \<le> r" using that r by (simp add: r_def)
    then have "(of_int 1 :: rat) \<le> of_int r" by (simp only: of_int_le_iff)
    then have "1 / (2 * of_int t) \<le> (of_int r :: rat) / (2 * of_int t)"
      using tpos by (simp add: divide_right_mono)
    then have "of_int k + 1 / (2 * of_int t) \<le> v + 1 / 2" using v by simp
    then have "of_int k \<le> p + 1 / 2" using err small by (simp add: abs_if split: if_splits)
    then show ?thesis using up by (intro floor_unique) simp_all
  qed
qed

lemma num_lt_getTime:
  "num_lt (getTime P s) (num c) \<longleftrightarrow> (case dateParse P s of Some v \<Rightarrow> v < c | None \<Rightarrow> False)"
  by (simp add: num_lt_def getTime_def num_def split: option.splits)

lemma getTaskStats_counts:
  "total (getTaskStats P e ts) = length ts"
  "completedCount (getTaskStats P e ts) = length (filter completed ts)"
  "pending (getTaskStats P e ts) = length ts - length (filter completed ts)"
  "overdueCount (getTaskStats P e ts) =
     length (filter (\<lambda>t. dueDate t \<noteq> [] \<and> \<not> completed t \<and>
        (case dateParse P (dueDate t) of Some v \<Rightarrow> v < clock e | None \<Rightarrow> False)) ts)"
  by (simp_all add: getTaskStats_def Let_def num_lt_getTime)

lemma getTaskStats_rate_eq:
  "completionRate (getTaskStats P e ts) =
     (if ts = [] then Some 0
      else Some (of_int \<lfloor>fl (fl (of_int (int (length (filter completed ts))) / of_int (int (length ts))) * 100) + 1 / 2\<rfloor>))"
  by (simp add: getTaskStats_def Let_def num_def num_div_def num_mul_def Math_round_def)

lemma getTaskStats_rate:
  assumes "length ts < 2 ^ 32" "ts \<noteq> []"
  defines "c \<equiv> int (length (filter completed ts))"
  defines "t \<equiv> int (length ts)"
  shows "(200 * c + t) mod (2 * t) \<noteq> 0 \<Longrightarrow>
           completionRate (getTaskStats P e ts) = Some (of_int ((200 * c + t) div (2 * t)))"
    and "completionRate (getTaskStats P e ts) = Some (of_int ((200 * c + t) div (2 * t)))
         \<or> completionRate (getTaskStats P e ts) = Some (of_int ((200 * c + t) div (2 * t) - 1))"
proof -
  have c0: "0 \<le> c" by (simp add: c_def)
  have ct: "c \<le> t" by (simp add: c_def t_def)
  have t0: "0 < t" using assms(2) by (simp add: t_def)
  have "int (length ts) < int (2 ^ 32)" using assms(1) by (simp only: of_nat_less_iff)
  then have t32: "t < 2 ^ 32" by (simp add: t_def)
  have eq: "completionRate (getTaskStats P e ts) =
      Some (of_int \<lfloor>fl (fl (of_int c / of_int t) * 100) + 1 / 2\<rfloor>)"
    using assms(2) by (simp only: getTaskStats_rate_eq c_def t_def if_False)
  show "completionRate (getTaskStats P e ts) = Some (of_int ((200 * c + t) div (2 * t)))"
    if "(200 * c + t) mod (2 * t) \<noteq> 0"
    using rate_round(1)[OF c0 ct t0 t32 that] by (simp only: eq)
  show "completionRate (getTaskStats P e ts) = Some (of_int ((200 * c + t) div (2 * t)))
         \<or> completionRate (getTaskStats P e ts) = Some (of_int ((200 * c + t) div (2 * t) - 1))"
    using rate_round(2)[OF c0 ct t0 t32] unfolding eq by auto
qed


section \<open>Facts about the controller\<close>

lemma findTask_Some:
  assumes "findTask ts w = Some i"
  shows "i < length ts \<and> (\<exists>x. w = Some x \<and> taskId (ts ! i) = x)"
proof (cases w)
  case None
  then show ?thesis using assms by (simp add: findTask_def)
next
  case (Some x)
  then have "indexOf (map taskId ts) x = Some i" using assms by (simp add: findTask_def)
  from indexOf_Some_less[OF this] show ?thesis using Some by auto
qed

lemma tasks_saveAndRender: "tasks (saveAndRender P e s) = tasks s"
  by (simp add: saveAndRender_def render_def)


section \<open>Claims\<close>


subsection \<open>validateTask\<close>

text \<open>
  What \<^verbatim>\<open>validateTask\<close> reports for every form input: the errors are collected in the fixed
  order text required, text too long, invalid due date, too many tags, and the input is
  valid exactly when none is reported. The last error depends on the number of characters
  typed into the tags field; it is always there when more than 10 tags are parsed.
\<close>

lemma validateTask_errors:
  "errors (validateTask P f) =
     (if trim (formText f) = [] then [''Task text is required''] else [])
   @ (if 500 < length (trim (formText f)) then [''Task text must be less than 500 characters''] else [])
   @ (if formDueDate f \<noteq> [] \<and> dateParse P (formDueDate f) = None then [''Invalid due date format''] else [])
   @ (if 10 < length (formTags f) then [''Maximum 10 tags allowed''] else [])"
  and validateTask_isValid: "isValid (validateTask P f) \<longleftrightarrow> errors (validateTask P f) = []"
proof -
  have t: "formText f = [] \<Longrightarrow> trim (formText f) = []" by (simp add: trim_def)
  have g: "getTime P s = None \<longleftrightarrow> dateParse P s = None" for s
    by (simp add: getTime_def num_def split: option.splits)
  show "errors (validateTask P f) =
     (if trim (formText f) = [] then [''Task text is required''] else [])
   @ (if 500 < length (trim (formText f)) then [''Task text must be less than 500 characters''] else [])
   @ (if formDueDate f \<noteq> [] \<and> dateParse P (formDueDate f) = None then [''Invalid due date format''] else [])
   @ (if 10 < length (formTags f) then [''Maximum 10 tags allowed''] else [])"
    using t by (auto simp: validateTask_def Let_def g)
  show "isValid (validateTask P f) \<longleftrightarrow> errors (validateTask P f) = []"
    by (simp add: validateTask_def Let_def)
qed

lemma validateTask_many_tags:
  assumes "10 < length (parseTags (JSString (formTags f)))"
  shows "''Maximum 10 tags allowed'' \<in> set (errors (validateTask P f))"
proof -
  have "10 < length (formTags f)" using assms length_parseTags_le[of "formTags f"] by linarith
  then show ?thesis by (simp add: validateTask_errors)
qed

text \<open>
  Claim C1 says that the tag-count error is produced exactly when the number of parsed tags
  exceeds 10. The source compares \<^verbatim>\<open>taskData.tags.length\<close>, the length of the string in the
  tags field, with 10. The README's own example \<^verbatim>\<open>#work #urgent\<close> has 13 characters and 2
  tags, and it is rejected with "Maximum 10 tags allowed".
\<close>

theorem validateTask_tag_limit_counts_characters:
  "validateTask utcHost \<lparr>formText = ''Buy milk'', formDueDate = [], formTags = ''#work #urgent''\<rparr>
     = \<lparr>isValid = False, errors = [''Maximum 10 tags allowed'']\<rparr>
   \<and> parseTags (JSString ''#work #urgent'') = [''#work'', ''#urgent'']"
  by code_simp


subsection \<open>The derived values and the clock\<close>





subsection \<open>calculatePriority\<close>

text \<open>
  Claim C3: with \<open>diffDays = ceil((dueDate - now) / 1 day)\<close>, where \<open>now\<close> is the reading of
  the clock, \<^verbatim>\<open>calculatePriority\<close> returns \<open>low\<close> without a due date, \<open>overdue\<close> when
  \<open>diffDays < 0\<close>, \<open>high\<close> when it is 0 or 1, \<open>medium\<close> when it is 2 or 3 and \<open>low\<close>
  otherwise. The day difference of the statement is exact; the one the program computes is
  rounded twice, and the two lead to the same priority. A due date that the host cannot
  read gives \<open>low\<close>.
\<close>

theorem calculatePriority_rule:
  "calculatePriority P e [] = Low \<and>
   (due \<noteq> [] \<and> dateParse P due = Some t \<longrightarrow>
     (let diff = \<lceil>(of_int (t - clock e) :: rat) / (1000 * 60 * 60 * 24)\<rceil> in
        (diff < 0 \<longrightarrow> calculatePriority P e due = Overdue) \<and>
        (diff = 0 \<or> diff = 1 \<longrightarrow> calculatePriority P e due = High) \<and>
        (diff = 2 \<or> diff = 3 \<longrightarrow> calculatePriority P e due = Medium) \<and>
        (3 < diff \<longrightarrow> calculatePriority P e due = Low))) \<and>
   (due \<noteq> [] \<and> dateParse P due = None \<longrightarrow> calculatePriority P e due = Low)"
proof -
  have "calculatePriority P e [] = Low" by (simp add: calculatePriority_def)
  moreover have "calculatePriority P e due = Low" if "due \<noteq> []" "dateParse P due = None"
    using that by (simp add: calculatePriority_def diffDays_invalid num_lt_def num_le_def)
  moreover have "(let diff = \<lceil>(of_int (t - clock e) :: rat) / (1000 * 60 * 60 * 24)\<rceil> in
        (diff < 0 \<longrightarrow> calculatePriority P e due = Overdue) \<and>
        (diff = 0 \<or> diff = 1 \<longrightarrow> calculatePriority P e due = High) \<and>
        (diff = 2 \<or> diff = 3 \<longrightarrow> calculatePriority P e due = Medium) \<and>
        (3 < diff \<longrightarrow> calculatePriority P e due = Low))"
    if "due \<noteq> []" "dateParse P due = Some t"
  proof -
    define n where "n = \<lceil>(of_int (t - clock e) :: rat) / 86400000\<rceil>"
    have eq: "\<lceil>(of_int (t - clock e) :: rat) / (1000 * 60 * 60 * 24)\<rceil> = n" by (simp add: n_def)
    have cp: "calculatePriority P e due =
        (if n < 0 then Overdue else if n \<le> 1 then High else if n \<le> 3 then Medium else Low)"
      using calculatePriority_parsed[OF that, of e] by (simp only: n_def Let_def)
    have "(n < 0 \<longrightarrow> calculatePriority P e due = Overdue) \<and>
        (n = 0 \<or> n = 1 \<longrightarrow> calculatePriority P e due = High) \<and>
        (n = 2 \<or> n = 3 \<longrightarrow> calculatePriority P e due = Medium) \<and>
        (3 < n \<longrightarrow> calculatePriority P e due = Low)"
      unfolding cp by auto
    then show ?thesis unfolding Let_def eq .
  qed
  ultimately show ?thesis by blast
qed

text \<open>
  The rule on 10 January 2024, 13:11 UTC, for no due date and for due dates from the day
  before to four days ahead.
\<close>

theorem calculatePriority_rule_witness:
  "calculatePriority utcHost env_jan10 [] = Low \<and>
   calculatePriority utcHost env_jan10 ''2024-01-09'' = Overdue \<and>
   calculatePriority utcHost env_jan10 ''2024-01-10'' = High \<and>
   calculatePriority utcHost env_jan10 ''2024-01-11'' = High \<and>
   calculatePriority utcHost env_jan10 ''2024-01-12'' = Medium \<and>
   calculatePriority utcHost env_jan10 ''2024-01-13'' = Medium \<and>
   calculatePriority utcHost env_jan10 ''2024-01-14'' = Low"
proof -
  have c: "clock env_jan10 = 1704892271123" by (simp add: env_jan10_def)
  have p9: "dateParse utcHost ''2024-01-09'' = Some 1704758400000" by code_simp
  have p10: "dateParse utcHost ''2024-01-10'' = Some 1704844800000" by code_simp
  have p11: "dateParse utcHost ''2024-01-11'' = Some 1704931200000" by code_simp
  have p12: "dateParse utcHost ''2024-01-12'' = Some 1705017600000" by code_simp
  have p13: "dateParse utcHost ''2024-01-13'' = Some 1705104000000" by code_simp
  have p14: "dateParse utcHost ''2024-01-14'' = Some 1705190400000" by code_simp
  have n9: "\<lceil>(of_int (1704758400000 - 1704892271123) :: rat) / (1000 * 60 * 60 * 24)\<rceil> = - 1"
    by (rule ceiling_unique) simp_all
  have n10: "\<lceil>(of_int (1704844800000 - 1704892271123) :: rat) / (1000 * 60 * 60 * 24)\<rceil> = 0"
    by (rule ceiling_unique) simp_all
  have n11: "\<lceil>(of_int (1704931200000 - 1704892271123) :: rat) / (1000 * 60 * 60 * 24)\<rceil> = 1"
    by (rule ceiling_unique) simp_all
  have n12: "\<lceil>(of_int (1705017600000 - 1704892271123) :: rat) / (1000 * 60 * 60 * 24)\<rceil> = 2"
    by (rule ceiling_unique) simp_all
  have n13: "\<lceil>(of_int (1705104000000 - 1704892271123) :: rat) / (1000 * 60 * 60 * 24)\<rceil> = 3"
    by (rule ceiling_unique) simp_all
  have n14: "\<lceil>(of_int (1705190400000 - 1704892271123) :: rat) / (1000 * 60 * 60 * 24)\<rceil> = 4"
    by (rule ceiling_unique) simp_all
  have "calculatePriority utcHost env_jan10 [] = Low"
    using calculatePriority_rule[of utcHost env_jan10] by simp
  moreover have "calculatePriority utcHost env_jan10 ''2024-01-09'' = Overdue"
    using calculatePriority_rule[of utcHost env_jan10 "''2024-01-09''" 1704758400000] p9 n9
    by (simp add: c Let_def)
  moreover have "calculatePriority utcHost env_jan10 ''2024-01-10'' = High"
    using calculatePriority_rule[of utcHost env_jan10 "''2024-01-10''" 1704844800000] p10 n10
    by (simp add: c Let_def)
  moreover have "calculatePriority utcHost env_jan10 ''2024-01-11'' = High"
    using calculatePriority_rule[of utcHost env_jan10 "''2024-01-11''" 1704931200000] p11 n11
    by (simp add: c Let_def)
  moreover have "calculatePriority utcHost env_jan10 ''2024-01-12'' = Medium"
    using calculatePriority_rule[of utcHost env_jan10 "''2024-01-12''" 1705017600000] p12 n12
    by (simp add: c Let_def)
  moreover have "calculatePriority utcHost env_jan10 ''2024-01-13'' = Medium"
    using calculatePriority_rule[of utcHost env_jan10 "''2024-01-13''" 1705104000000] p13 n13
    by (simp add: c Let_def)
  moreover have "calculatePriority utcHost env_jan10 ''2024-01-14'' = Low"
    using calculatePriority_rule[of utcHost env_jan10 "''2024-01-14''" 1705190400000] p14 n14
    by (simp add: c Let_def)
  ultimately show ?thesis by blast
qed


subsection \<open>sortTasks\<close>

text \<open>
  Claim C4: \<^verbatim>\<open>sortTasks\<close> leaves the array it is given as it was and returns a new array
  (in the store, every array that existed keeps its contents and the result is a fresh
  one); the result is a permutation of the input; sorting the result again by the same
  criterion changes nothing; and by \<open>priority\<close> the result is ordered by rank, the tasks of
  equal priority staying in their input order.
\<close>

theorem sortTasks_permutation_idempotent_stable:
  "(r < length h \<longrightarrow>
      (\<exists>h'. sortTasks_store P h r sortBy = Some (length h, h') \<and>
            length h' = Suc (length h) \<and>
            (\<forall>j < length h. h' ! j = h ! j) \<and>
            h' ! length h = sortTasks P (h ! r) sortBy))
   \<and> mset (sortTasks P ts sortBy) = mset ts
   \<and> sortTasks P (sortTasks P ts sortBy) sortBy = sortTasks P ts sortBy
   \<and> sorted (map (\<lambda>t. priority_rank (priority t)) (sortTasks P ts ''priority''))
   \<and> (\<forall>k. filter (\<lambda>t. priority t = k) (sortTasks P ts ''priority'')
            = filter (\<lambda>t. priority t = k) ts)"
proof -
  have "\<exists>h'. sortTasks_store P h r sortBy = Some (length h, h') \<and>
            length h' = Suc (length h) \<and>
            (\<forall>j < length h. h' ! j = h ! j) \<and>
            h' ! length h = sortTasks P (h ! r) sortBy" if "r < length h"
    using that by (simp add: sortTasks_store_eq nth_append)
  then show ?thesis
    using mset_sortTasks[of P ts sortBy] sortTasks_idem[of P ts sortBy]
      sortTasks_priority_sorted[of P ts] sortTasks_priority_stable[of _ P ts]
    by blast
qed

text \<open>
  The four example tasks sorted by priority, in a store that holds only them.
\<close>

theorem sortTasks_permutation_idempotent_stable_witness:
  "(0::nat) < length [example_tasks]
   \<and> sortTasks_store utcHost [example_tasks] 0 ''priority''
       = Some (1, [example_tasks, [task_taxes, task_milk, task_report, task_call]])
   \<and> sortTasks utcHost example_tasks ''priority'' = [task_taxes, task_milk, task_report, task_call]
   \<and> mset [task_taxes, task_milk, task_report, task_call] = mset example_tasks
   \<and> sortTasks utcHost [task_taxes, task_milk, task_report, task_call] ''priority''
       = [task_taxes, task_milk, task_report, task_call]
   \<and> filter (\<lambda>t. priority t = Low) [task_taxes, task_milk, task_report, task_call]
       = filter (\<lambda>t. priority t = Low) example_tasks"
proof -
  have len: "(0::nat) < length [example_tasks]" by simp
  have ev: "sortTasks utcHost example_tasks ''priority'' = [task_taxes, task_milk, task_report, task_call]"
    by code_simp
  have st: "sortTasks_store utcHost [example_tasks] 0 ''priority''
       = Some (1, [example_tasks, [task_taxes, task_milk, task_report, task_call]])"
    by code_simp
  note inst = sortTasks_permutation_idempotent_stable[of 0 "[example_tasks]" utcHost "''priority''" example_tasks]
  from inst have "mset (sortTasks utcHost example_tasks ''priority'') = mset example_tasks"
    and "sortTasks utcHost (sortTasks utcHost example_tasks ''priority'') ''priority''
          = sortTasks utcHost example_tasks ''priority''"
    and "filter (\<lambda>t. priority t = Low) (sortTasks utcHost example_tasks ''priority'')
          = filter (\<lambda>t. priority t = Low) example_tasks"
    by blast+
  then show ?thesis using len st ev by (simp only: ev)
qed


subsection \<open>getTaskStats\<close>

text \<open>
  Claim C5 says that \<open>completionRate = round(100 * completed / total)\<close>. The source
  computes \<^verbatim>\<open>Math.round((completed / total) * 100)\<close> in binary64: with 23 of 40 tasks
  completed, \<open>23 / 40\<close> is rounded down, the product is \<open>57.49999999999999\<close> and the rate
  is 57, while \<open>100 * 23 / 40 = 57.5\<close> rounds to 58. The counts of the claim hold
  (\<open>getTaskStats_counts\<close>), and so does the rate whenever \<open>100 * completed / total\<close> is
  not half-way between two integers (\<open>getTaskStats_rate\<close>, for the lengths an array can
  have).
\<close>

theorem getTaskStats_rate_23_of_40:
  "getTaskStats utcHost env_jan10 forty_tasks =
     \<lparr>total = 40, completedCount = 23, pending = 17, overdueCount = 0, completionRate = Some 57\<rparr>
   \<and> \<lfloor>(100 * 23 / 40 :: rat) + 1 / 2\<rfloor> = 58"
  by code_simp


subsection \<open>parseTags\<close>

text \<open>
  Claim C6: \<^verbatim>\<open>parseTags\<close> splits its input on white space, keeps the pieces that begin
  with \<open>#\<close>, lower-cases them and removes duplicates, the first occurrence staying in
  place; the empty string and every value that is not a string give the empty list; every
  element of the result begins with \<open>#\<close>, and no two elements are equal up to case. It
  is a total function.
\<close>

theorem parseTags_spec:
  "parseTags (JSString s) =
     (if s = [] then []
      else remove_duplicates (map toLowerCase (filter (\<lambda>tag. startsWith tag CHR ''#'') (split_ws s))))
   \<and> parseTags JSUndefined = [] \<and> parseTags JSNull = [] \<and> parseTags (JSNumber r) = []
   \<and> (\<forall>tok \<in> set (split_ws s). \<forall>c \<in> set tok. \<not> is_space c)
   \<and> (\<forall>tag \<in> set (parseTags v). startsWith tag CHR ''#'')
   \<and> distinct (map toLowerCase (parseTags v))"
proof -
  have eq: "parseTags (JSString s) =
     (if s = [] then []
      else remove_duplicates (map toLowerCase (filter (\<lambda>tag. startsWith tag CHR ''#'') (split_ws s))))"
    for s by (simp add: parseTags_def filter_first_index_eq)
  have other: "parseTags JSUndefined = []" "parseTags JSNull = []" "parseTags (JSNumber r) = []"
    by (simp_all add: parseTags_def)
  have toks: "\<forall>tok \<in> set (split_ws s). \<forall>c \<in> set tok. \<not> is_space c"
    unfolding split_ws_def by (rule split_ws_from_no_space) simp
  have hash: "\<forall>tag \<in> set (parseTags v). startsWith tag CHR ''#''"
  proof (cases v)
    case (JSString u)
    then show ?thesis
      by (auto simp: eq set_remove_duplicates intro: startsWith_toLowerCase)
  qed (simp_all add: parseTags_def)
  have low: "map toLowerCase (parseTags v) = parseTags v"
  proof (cases v)
    case (JSString u)
    have "map toLowerCase (remove_duplicates (map toLowerCase xs)) = remove_duplicates (map toLowerCase xs)"
      for xs :: "string list"
      by (rule map_idI) (auto simp: set_remove_duplicates toLowerCase_idem)
    then show ?thesis by (simp add: JSString eq)
  qed (simp_all add: parseTags_def)
  have dist: "distinct (parseTags v)"
  proof (cases v)
    case (JSString u)
    then show ?thesis by (simp add: eq distinct_remove_duplicates)
  qed (simp_all add: parseTags_def)
  have dist': "distinct (map toLowerCase (parseTags v))" using dist by (simp only: low)
  show ?thesis using eq[of s] other toks hash dist' by blast
qed

text \<open>
  An input with repeated tags in different cases, a word without \<open>#\<close> and white space
  at the end.
\<close>

theorem parseTags_spec_witness:
  "parseTags (JSString ''#home  #Home x #work #HOME '') = [''#home'', ''#work'']
   \<and> split_ws ''#home  #Home x #work #HOME '' = [''#home'', ''#Home'', ''x'', ''#work'', ''#HOME'', []]
   \<and> distinct (map toLowerCase [''#home'', ''#work''])
   \<and> list_all (\<lambda>tag. startsWith tag CHR ''#'') [''#home'', ''#work'']"
proof -
  have ev: "parseTags (JSString ''#home  #Home x #work #HOME '') = [''#home'', ''#work'']"
    by code_simp
  have sp: "split_ws ''#home  #Home x #work #HOME '' = [''#home'', ''#Home'', ''x'', ''#work'', ''#HOME'', []]"
    by code_simp
  from parseTags_spec[of "''#home  #Home x #work #HOME ''" 0 "JSString ''#home  #Home x #work #HOME ''"]
  have "(\<forall>tag \<in> set (parseTags (JSString ''#home  #Home x #work #HOME '')). startsWith tag CHR ''#'')"
    and "distinct (map toLowerCase (parseTags (JSString ''#home  #Home x #work #HOME '')))"
    by blast+
  then show ?thesis unfolding ev using ev sp by (simp add: list_all_iff)
qed


subsection \<open>sortTasks by due date\<close>

text \<open>
  Claim C7: for tasks whose due dates the host can read, \<^verbatim>\<open>sortTasks\<close> by \<open>dueDate\<close>
  returns the dated tasks first, in ascending order of their due dates, followed by the
  tasks without a due date in their input order.
\<close>

theorem sortTasks_dueDate_order:
  assumes "\<forall>t \<in> set ts. dueDate t \<noteq> [] \<longrightarrow> dateParse P (dueDate t) \<noteq> None"
  shows "let ys = sortTasks P ts ''dueDate'' in
           ys = filter (\<lambda>t. dueDate t \<noteq> []) ys @ filter (\<lambda>t. dueDate t = []) ys
         \<and> sorted_wrt (due_le P) (filter (\<lambda>t. dueDate t \<noteq> []) ys)
         \<and> filter (\<lambda>t. dueDate t = []) ys = filter (\<lambda>t. dueDate t = []) ts
         \<and> mset ys = mset ts"
proof -
  have valid: "\<And>t. t \<in> set ts \<Longrightarrow> dueDate t \<noteq> [] \<Longrightarrow> dateParse P (dueDate t) \<noteq> None"
    using assms by blast
  show ?thesis
    unfolding Let_def
    using sortTasks_dueDate_props[of ts P, OF valid] mset_sortTasks[of P ts "''dueDate''"]
    by simp
qed

text \<open>
  The four example tasks: two dated ones, given in descending order, and two without a
  due date.
\<close>

theorem sortTasks_dueDate_order_witness:
  "list_all (\<lambda>t. dueDate t = [] \<or> dateParse utcHost (dueDate t) \<noteq> None) example_tasks
   \<and> sortTasks utcHost example_tasks ''dueDate'' = [task_taxes, task_milk, task_report, task_call]
   \<and> filter (\<lambda>t. dueDate t \<noteq> []) [task_taxes, task_milk, task_report, task_call] = [task_taxes, task_milk]
   \<and> filter (\<lambda>t. dueDate t = []) [task_taxes, task_milk, task_report, task_call] = [task_report, task_call]
   \<and> sorted_wrt (due_le utcHost) [task_taxes, task_milk]
   \<and> filter (\<lambda>t. dueDate t = []) example_tasks = [task_report, task_call]"
proof -
  have v: "list_all (\<lambda>t. dueDate t = [] \<or> dateParse utcHost (dueDate t) \<noteq> None) example_tasks"
    by code_simp
  then have hyp: "\<forall>t \<in> set example_tasks. dueDate t \<noteq> [] \<longrightarrow> dateParse utcHost (dueDate t) \<noteq> None"
    by (auto simp: list_all_iff)
  have ev: "sortTasks utcHost example_tasks ''dueDate'' = [task_taxes, task_milk, task_report, task_call]"
    by code_simp
  have f1: "filter (\<lambda>t. dueDate t \<noteq> []) [task_taxes, task_milk, task_report, task_call] = [task_taxes, task_milk]"
    by code_simp
  have f2: "filter (\<lambda>t. dueDate t = []) [task_taxes, task_milk, task_report, task_call] = [task_report, task_call]"
    by code_simp
  from sortTasks_dueDate_order[OF hyp]
  have "sorted_wrt (due_le utcHost) (filter (\<lambda>t. dueDate t \<noteq> []) (sortTasks utcHost example_tasks ''dueDate''))"
    and "filter (\<lambda>t. dueDate t = []) (sortTasks utcHost example_tasks ''dueDate'')
          = filter (\<lambda>t. dueDate t = []) example_tasks"
    by (simp_all add: Let_def)
  then show ?thesis using v ev f1 f2 by (simp only: ev f1 f2)
qed


subsection \<open>filterTasksByTag\<close>

text \<open>
  Claim C8: \<^verbatim>\<open>filterTasksByTag\<close> returns its input when the tag is absent or empty, and
  otherwise the tasks one of whose tags equals the given tag up to case.
\<close>

theorem filterTasksByTag_spec:
  "filterTasksByTag ts None = ts \<and> filterTasksByTag ts (Some []) = ts \<and>
   (f \<noteq> [] \<longrightarrow>
      filterTasksByTag ts (Some f) =
        filter (\<lambda>t. \<exists>g \<in> set (tags t). toLowerCase g = toLowerCase f) ts)"
  by (simp add: filterTasksByTag_def list_ex_iff)

text \<open>
  Filtering the example tasks by \<open>#Work\<close> finds the task tagged \<open>#work\<close>.
\<close>

theorem filterTasksByTag_spec_witness:
  "''#Work'' \<noteq> [] \<and> filterTasksByTag example_tasks (Some ''#Work'') = [task_report]
   \<and> tags task_report = [''#work'']
   \<and> filter (\<lambda>t. \<exists>g \<in> set (tags t). toLowerCase g = toLowerCase ''#Work'') example_tasks = [task_report]
   \<and> filterTasksByTag example_tasks (Some []) = example_tasks
   \<and> filterTasksByTag example_tasks None = example_tasks"
proof -
  have ev: "filterTasksByTag example_tasks (Some ''#Work'') = [task_report]" by code_simp
  have tg: "tags task_report = [''#work'']" by code_simp
  from filterTasksByTag_spec[of example_tasks "''#Work''"] ev tg show ?thesis by simp
qed


subsection \<open>Rejected forms\<close>

text \<open>
  Claim C9: when the form fails validation, \<^verbatim>\<open>handleTaskSubmit\<close> changes nothing but the
  notification, which shows the validation errors; \<^verbatim>\<open>handleEditSubmit\<close> leaves the tasks
  and the stored tasks as they were, and shows the validation errors and nothing else
  when the task being edited exists (when it does not, it only closes the dialog).
\<close>

theorem invalid_form_rejected:
  "(\<not> isValid (validateTask P (taskForm s)) \<longrightarrow>
      handleTaskSubmit P e s =
        s\<lparr>notification := Some (join '', '' (errors (validateTask P (taskForm s))), ''error'')\<rparr>
      \<and> tasks (handleTaskSubmit P e s) = tasks s
      \<and> storedTasks (handleTaskSubmit P e s) = storedTasks s)
   \<and> (\<not> isValid (validateTask P (editForm s)) \<longrightarrow>
      tasks (handleEditSubmit P e s) = tasks s
      \<and> storedTasks (handleEditSubmit P e s) = storedTasks s
      \<and> (case findTask (tasks s) (editModalTaskId s) of
            Some i \<Rightarrow> handleEditSubmit P e s =
              s\<lparr>notification := Some (join '', '' (errors (validateTask P (editForm s))), ''error'')\<rparr>
          | None \<Rightarrow> handleEditSubmit P e s = hideEditModal s))"
  by (auto simp: handleTaskSubmit_def handleEditSubmit_def showNotification_def hideEditModal_def
        Let_def split: option.splits)

text \<open>
  A form whose text is blank, submitted as a new task and as an edit of the first task.
\<close>

theorem invalid_form_rejected_witness:
  "\<not> isValid (validateTask utcHost (taskForm app_blank_submit))
   \<and> \<not> isValid (validateTask utcHost (editForm app_blank_edit))
   \<and> handleTaskSubmit utcHost env_jan10 app_blank_submit
       = app_blank_submit\<lparr>notification := Some (''Task text is required'', ''error'')\<rparr>
   \<and> tasks (handleTaskSubmit utcHost env_jan10 app_blank_submit) = example_tasks
   \<and> findTask (tasks app_blank_edit) (editModalTaskId app_blank_edit) = Some 0
   \<and> handleEditSubmit utcHost env_jan10 app_blank_edit
       = app_blank_edit\<lparr>notification := Some (''Task text is required'', ''error'')\<rparr>
   \<and> tasks (handleEditSubmit utcHost env_jan10 app_blank_edit) = example_tasks"
proof -
  have h1: "\<not> isValid (validateTask utcHost (taskForm app_blank_submit))" by code_simp
  have h2: "\<not> isValid (validateTask utcHost (editForm app_blank_edit))" by code_simp
  have e1: "join '', '' (errors (validateTask utcHost (taskForm app_blank_submit))) = ''Task text is required''"
    by code_simp
  have e2: "join '', '' (errors (validateTask utcHost (editForm app_blank_edit))) = ''Task text is required''"
    by code_simp
  have f: "findTask (tasks app_blank_edit) (editModalTaskId app_blank_edit) = Some 0" by code_simp
  have t1: "tasks app_blank_submit = example_tasks" by code_simp
  have t2: "tasks app_blank_edit = example_tasks" by code_simp
  from invalid_form_rejected[of utcHost app_blank_submit env_jan10] h1 e1 t1
  have a: "handleTaskSubmit utcHost env_jan10 app_blank_submit
       = app_blank_submit\<lparr>notification := Some (''Task text is required'', ''error'')\<rparr>"
    and b: "tasks (handleTaskSubmit utcHost env_jan10 app_blank_submit) = example_tasks"
    by simp_all
  from invalid_form_rejected[of utcHost app_blank_edit env_jan10] h2 e2 t2 f
  have c: "handleEditSubmit utcHost env_jan10 app_blank_edit
       = app_blank_edit\<lparr>notification := Some (''Task text is required'', ''error'')\<rparr>"
    and d: "tasks (handleEditSubmit utcHost env_jan10 app_blank_edit) = example_tasks"
    by simp_all
  show ?thesis using h1 h2 a b c d f by blast
qed


subsection \<open>Accepted edits\<close>

text \<open>
  Claim C10: a valid edit of an existing task overwrites the text, the due date, the tags
  and the priority of that task and nothing else: its id, its creation time and its
  completion flag stay, the other tasks stay, and the collection keeps its length and the
  order of its ids.
\<close>

theorem valid_edit_overwrites_four_fields:
  assumes "findTask (tasks s) (editModalTaskId s) = Some i"
      and "isValid (validateTask P (editForm s))"
  shows "let s' = handleEditSubmit P e s; f = editForm s in
           i < length (tasks s)
         \<and> length (tasks s') = length (tasks s)
         \<and> tasks s' ! i = (tasks s ! i)\<lparr>taskText := trim (formText f),
               dueDate := formDueDate f,
               tags := parseTags (JSString (formTags f)),
               priority := calculatePriority P e (formDueDate f)\<rparr>
         \<and> taskId (tasks s' ! i) = taskId (tasks s ! i)
         \<and> createdAt (tasks s' ! i) = createdAt (tasks s ! i)
         \<and> completed (tasks s' ! i) = completed (tasks s ! i)
         \<and> (\<forall>j < length (tasks s). j \<noteq> i \<longrightarrow> tasks s' ! j = tasks s ! j)
         \<and> map taskId (tasks s') = map taskId (tasks s)
         \<and> map createdAt (tasks s') = map createdAt (tasks s)"
proof -
  have i: "i < length (tasks s)" using findTask_Some[OF assms(1)] by simp
  define t1 where "t1 = (tasks s ! i)\<lparr>taskText := trim (formText (editForm s)),
               dueDate := formDueDate (editForm s),
               tags := parseTags (JSString (formTags (editForm s))),
               priority := calculatePriority P e (formDueDate (editForm s))\<rparr>"
  have ts: "tasks (handleEditSubmit P e s) = (tasks s)[i := t1]"
    using assms
    by (simp add: handleEditSubmit_def Let_def showNotification_def hideEditModal_def
        tasks_saveAndRender t1_def)
  have m1: "map taskId ((tasks s)[i := t1]) = map taskId (tasks s)"
    using i by (simp add: map_update t1_def list_update_same_conv)
  have m2: "map createdAt ((tasks s)[i := t1]) = map createdAt (tasks s)"
    using i by (simp add: map_update t1_def list_update_same_conv)
  show ?thesis
    unfolding Let_def ts using i m1 m2 by (simp add: t1_def)
qed

text \<open>
  The first example task edited: new text, due date and tags.
\<close>

theorem valid_edit_overwrites_four_fields_witness:
  "findTask (tasks app_good_edit) (editModalTaskId app_good_edit) = Some 0
   \<and> isValid (validateTask utcHost (editForm app_good_edit))
   \<and> tasks app_good_edit = [task_milk, task_report, task_taxes, task_call]
   \<and> tasks (handleEditSubmit utcHost env_jan10 app_good_edit) ! 0
       = task_milk\<lparr>taskText := ''Buy oat milk'', dueDate := ''2024-01-13'',
                    tags := [''#home'', ''#x''], priority := Medium\<rparr>
   \<and> map taskId (tasks (handleEditSubmit utcHost env_jan10 app_good_edit)) = [''a1'', ''a2'', ''a3'', ''a4'']
   \<and> tasks (handleEditSubmit utcHost env_jan10 app_good_edit) ! 1 = task_report"
proof -
  have f: "findTask (tasks app_good_edit) (editModalTaskId app_good_edit) = Some 0" by code_simp
  have v: "isValid (validateTask utcHost (editForm app_good_edit))" by code_simp
  have t: "tasks app_good_edit = [task_milk, task_report, task_taxes, task_call]" by code_simp
  have n: "(tasks app_good_edit ! 0)\<lparr>taskText := trim (formText (editForm app_good_edit)),
               dueDate := formDueDate (editForm app_good_edit),
               tags := parseTags (JSString (formTags (editForm app_good_edit))),
               priority := calculatePriority utcHost env_jan10 (formDueDate (editForm app_good_edit))\<rparr>
         = task_milk\<lparr>taskText := ''Buy oat milk'', dueDate := ''2024-01-13'',
                    tags := [''#home'', ''#x''], priority := Medium\<rparr>" by code_simp
  have ids: "map taskId (tasks app_good_edit) = [''a1'', ''a2'', ''a3'', ''a4'']" by code_simp
  have r: "tasks app_good_edit ! 1 = task_report" by code_simp
  have l: "(1::nat) < length (tasks app_good_edit)" by code_simp
  from valid_edit_overwrites_four_fields[OF f v, of env_jan10]
  have a: "tasks (handleEditSubmit utcHost env_jan10 app_good_edit) ! 0
      = (tasks app_good_edit ! 0)\<lparr>taskText := trim (formText (editForm app_good_edit)),
               dueDate := formDueDate (editForm app_good_edit),
               tags := parseTags (JSString (formTags (editForm app_good_edit))),
               priority := calculatePriority utcHost env_jan10 (formDueDate (editForm app_good_edit))\<rparr>"
    and b: "map taskId (tasks (handleEditSubmit utcHost env_jan10 app_good_edit)) = map taskId (tasks app_good_edit)"
    and c: "\<forall>j < length (tasks app_good_edit). j \<noteq> 0 \<longrightarrow>
              tasks (handleEditSubmit utcHost env_jan10 app_good_edit) ! j = tasks app_good_edit ! j"
    by (simp_all add: Let_def)
  from c l have "tasks (handleEditSubmit utcHost env_jan10 app_good_edit) ! 1 = tasks app_good_edit ! 1"
    by simp
  then show ?thesis using f v t a b n ids r by simp
qed


end
